theory Spec2Isabelle
  imports Main "HOL-Library.List_Lexorder" "HOL-Library.Char_ord"
begin

section \<open>Values shared by the three variants\<close>

text \<open>
  A thrown JavaScript \<^verbatim>\<open>Error\<close> carries its message; the error object of a client
  response (\<^verbatim>\<open>{ data, error }\<close>) carries one too.
\<close>

datatype Error = Error (message: string)

datatype PostgrestError = PostgrestError (pg_message: string)

text \<open>
  The values a field typed \<^verbatim>\<open>number\<close> or \<^verbatim>\<open>number | null\<close> holds at run time. The
  save handlers test such a field against \<^verbatim>\<open>null\<close>, \<^verbatim>\<open>undefined\<close> and \<^verbatim>\<open>NaN\<close>, so
  all three are values of the model. Minutes and counts are integers; fractional
  numbers (binary floating point) are outside this model.
\<close>

datatype jsnumber = Undefined | Null | NaN | Num int

fun isNaN :: "jsnumber \<Rightarrow> bool" where
  "isNaN Undefined = True"
| "isNaN Null = False"
| "isNaN NaN = True"
| "isNaN (Num n) = False"

section \<open>Remote schema (types.ts)\<close>

text \<open>
  \<^verbatim>\<open>Omit<TaskRow, 'id' | 'session_id' | 'created_at'>\<close>, then the insert payload
  \<^verbatim>\<open>{ ...task, session_id }\<close>, then the full row. The fields \<^verbatim>\<open>id\<close>,
  \<^verbatim>\<open>planned_minutes\<close>, \<^verbatim>\<open>created_at\<close> and \<^verbatim>\<open>user_id\<close> of a task carry the prefix
  \<open>task_\<close>, since a session row has fields of the same names.
\<close>

record TaskData =
  task_name :: string
  sort_order :: "int option"
  task_planned_minutes :: "int option"
  completed :: bool
  task_user_id :: string

record TaskInsert = TaskData +
  session_id :: string

record TaskRow = TaskInsert +
  task_id :: string
  task_created_at :: string

text \<open>
  \<^verbatim>\<open>Omit<SessionRow, 'id' | 'created_at'>\<close>, the full row (\<open>row_id\<close> is its \<^verbatim>\<open>id\<close>),
  and \<^verbatim>\<open>SessionWithTasks extends SessionRow\<close>. The string-literal unions
  \<^verbatim>\<open>SessionType\<close> and \<^verbatim>\<open>EnergyAfter\<close> are strings at run time.
\<close>

record SessionData =
  session_date :: string
  session_type :: string
  planned_minutes :: jsnumber
  actual_minutes :: jsnumber
  energy_after :: string
  row_notes :: "string option"
  user_id :: string

record SessionRow = SessionData +
  row_id :: string
  created_at :: string

record SessionWithTasks = SessionRow +
  tasks :: "TaskRow list"

section \<open>The remote store as the client sees it\<close>

text \<open>
  The requests the source sends through the client, and the ways a request can go
  wrong: the response carries an error, the response carries neither data nor error,
  or the call throws.
\<close>

datatype request =
  SelectSessions
| SelectTasks string
| InsertSession SessionData
| InsertTasks "TaskInsert list"
| DeleteSession string

datatype fault = Rejected PostgrestError | NoData | Thrown Error

datatype 'a response = Response "'a option" "PostgrestError option"

record AuthSession =
  auth_user_id :: string

text \<open>
  Everything outside the program: the two tables (the rows visible to this client),
  how the server assigns ids and timestamps, which requests it refuses, the requests
  received so far (oldest first), the identity provider's current session, the
  console, the calendar day, and, for the local variant, the browser's
  \<^verbatim>\<open>localStorage\<close>, whether it refuses a write, and the identifiers
  \<^verbatim>\<open>crypto.randomUUID()\<close> hands out.
\<close>

record env =
  sessions_table :: "SessionRow list"
  session_tasks_table :: "TaskRow list"
  serial :: nat
  new_id :: "nat \<Rightarrow> string"
  clock :: "nat \<Rightarrow> string"
  faults :: "request \<Rightarrow> fault option"
  requests :: "request list"
  auth_session :: "AuthSession option"
  console :: "(string \<times> Error) list"
  today :: string
  localStorage :: "string \<Rightarrow> string option"
  setItem_fault :: "Error option"
  randomUUID :: "nat \<Rightarrow> string"
  uuid_calls :: nat

definition send :: "request \<Rightarrow> env \<Rightarrow> env" where
  "send r w = w\<lparr>requests := requests w @ [r]\<rparr>"

definition console_error :: "string \<Rightarrow> Error \<Rightarrow> env \<Rightarrow> env" where
  "console_error msg e w = w\<lparr>console := console w @ [(msg, e)]\<rparr>"

text \<open>
  A request that meets a fault leaves the tables as they are.
\<close>

definition faulty :: "fault \<Rightarrow> env \<Rightarrow> (Error + 'a response) \<times> env" where
  "faulty f w =
     (case f of
        Thrown e \<Rightarrow> (Inl e, w)
      | Rejected pe \<Rightarrow> (Inr (Response None (Some pe)), w)
      | NoData \<Rightarrow> (Inr (Response None None), w))"

subsection \<open>Ordering of query results\<close>

fun insert_by :: "('a \<Rightarrow> 'a \<Rightarrow> bool) \<Rightarrow> 'a \<Rightarrow> 'a list \<Rightarrow> 'a list" where
  "insert_by le x [] = [x]"
| "insert_by le x (y # ys) = (if le x y then x # y # ys else y # insert_by le x ys)"

fun order_by :: "('a \<Rightarrow> 'a \<Rightarrow> bool) \<Rightarrow> 'a list \<Rightarrow> 'a list" where
  "order_by le [] = []"
| "order_by le (x # xs) = insert_by le x (order_by le xs)"

text \<open>
  \<^verbatim>\<open>.order('session_date', { ascending: false }).order('created_at', { ascending: false })\<close>:
  \<open>a\<close> may stand before \<open>b\<close>. Dates and timestamps are ISO 8601 strings, compared
  as strings.
\<close>

definition sessions_desc :: "'a SessionRow_scheme \<Rightarrow> 'b SessionRow_scheme \<Rightarrow> bool" where
  "sessions_desc a b \<longleftrightarrow>
     session_date a > session_date b \<or>
     (session_date a = session_date b \<and> created_at a \<ge> created_at b)"

text \<open>
  \<^verbatim>\<open>.order('sort_order', { ascending: true })\<close> over a nullable column: ascending, the
  rows without a \<^verbatim>\<open>sort_order\<close> last (the store's default for an ascending order).
\<close>

fun sort_order_le :: "int option \<Rightarrow> int option \<Rightarrow> bool" where
  "sort_order_le (Some x) (Some y) = (x \<le> y)"
| "sort_order_le a None = True"
| "sort_order_le None (Some y) = False"

definition tasks_asc :: "TaskRow \<Rightarrow> TaskRow \<Rightarrow> bool" where
  "tasks_asc a b = sort_order_le (sort_order a) (sort_order b)"

subsection \<open>The five requests\<close>

definition select_sessions :: "env \<Rightarrow> (Error + SessionRow list response) \<times> env" where
  "select_sessions w =
     (case faults w SelectSessions of
        Some f \<Rightarrow> faulty f (send SelectSessions w)
      | None \<Rightarrow>
          (Inr (Response (Some (order_by sessions_desc (sessions_table w))) None),
           send SelectSessions w))"

definition select_tasks :: "string \<Rightarrow> env \<Rightarrow> (Error + TaskRow list response) \<times> env" where
  "select_tasks sid w =
     (case faults w (SelectTasks sid) of
        Some f \<Rightarrow> faulty f (send (SelectTasks sid) w)
      | None \<Rightarrow>
          (Inr (Response
                 (Some (order_by tasks_asc
                          (filter (\<lambda>t. session_id t = sid) (session_tasks_table w))))
                 None),
           send (SelectTasks sid) w))"

definition stored_session :: "SessionData \<Rightarrow> env \<Rightarrow> SessionRow" where
  "stored_session d w =
     \<lparr> session_date = session_date d, session_type = session_type d,
       planned_minutes = planned_minutes d, actual_minutes = actual_minutes d,
       energy_after = energy_after d, row_notes = row_notes d, user_id = user_id d,
       row_id = new_id w (serial w), created_at = clock w (serial w) \<rparr>"

definition insert_session :: "SessionData \<Rightarrow> env \<Rightarrow> (Error + SessionRow response) \<times> env" where
  "insert_session d w =
     (case faults w (InsertSession d) of
        Some f \<Rightarrow> faulty f (send (InsertSession d) w)
      | None \<Rightarrow>
          (Inr (Response (Some (stored_session d w)) None),
           (send (InsertSession d) w)
             \<lparr> sessions_table := sessions_table w @ [stored_session d w],
               serial := Suc (serial w) \<rparr>))"

definition stored_task :: "env \<Rightarrow> nat \<times> TaskInsert \<Rightarrow> TaskRow" where
  "stored_task w = (\<lambda>(i, t).
     \<lparr> task_name = task_name t, sort_order = sort_order t,
       task_planned_minutes = task_planned_minutes t, completed = completed t,
       task_user_id = task_user_id t, session_id = session_id t,
       task_id = new_id w (serial w + i), task_created_at = clock w (serial w) \<rparr>)"

definition insert_tasks :: "TaskInsert list \<Rightarrow> env \<Rightarrow> (Error + TaskRow list response) \<times> env" where
  "insert_tasks ts w =
     (case faults w (InsertTasks ts) of
        Some f \<Rightarrow> faulty f (send (InsertTasks ts) w)
      | None \<Rightarrow>
          (Inr (Response (Some (map (stored_task w) (enumerate 0 ts))) None),
           (send (InsertTasks ts) w)
             \<lparr> session_tasks_table :=
                 session_tasks_table w @ map (stored_task w) (enumerate 0 ts),
               serial := serial w + length ts \<rparr>))"

text \<open>
  Deleting a session row removes the tasks that reference it (the foreign key of
  \<^verbatim>\<open>session_tasks\<close>).
\<close>

definition delete_session :: "string \<Rightarrow> env \<Rightarrow> (Error + unit response) \<times> env" where
  "delete_session sid w =
     (case faults w (DeleteSession sid) of
        Some f \<Rightarrow> faulty f (send (DeleteSession sid) w)
      | None \<Rightarrow>
          (Inr (Response None None),
           (send (DeleteSession sid) w)
             \<lparr> sessions_table := filter (\<lambda>r. row_id r \<noteq> sid) (sessions_table w),
               session_tasks_table :=
                 filter (\<lambda>t. session_id t \<noteq> sid) (session_tasks_table w) \<rparr>))"

section \<open>supabase.ts\<close>

text \<open>\<^verbatim>\<open>{ ...(session as SessionRow), tasks: ... }\<close>\<close>

definition with_tasks :: "SessionRow \<Rightarrow> TaskRow list \<Rightarrow> SessionWithTasks" where
  "with_tasks s ts =
     \<lparr> session_date = session_date s, session_type = session_type s,
       planned_minutes = planned_minutes s, actual_minutes = actual_minutes s,
       energy_after = energy_after s, row_notes = row_notes s, user_id = user_id s,
       row_id = row_id s, created_at = created_at s, tasks = ts \<rparr>"

text \<open>
  The loop \<^verbatim>\<open>for (const session of sessions)\<close> of \<^verbatim>\<open>fetchSessionsWithTasks\<close>, with
  \<^verbatim>\<open>sessionsWithTasks\<close> as the accumulator. \<open>Inl\<close> is a throw.
\<close>

fun fetch_tasks_loop ::
  "SessionRow list \<Rightarrow> SessionWithTasks list \<Rightarrow> env \<Rightarrow> (Error + SessionWithTasks list) \<times> env"
where
  "fetch_tasks_loop [] sessionsWithTasks w = (Inr sessionsWithTasks, w)"
| "fetch_tasks_loop (session # rest) sessionsWithTasks w =
     (case select_tasks (row_id session) w of
        (Inl e, w') \<Rightarrow> (Inl e, w')
      | (Inr (Response tasksData tasksError), w') \<Rightarrow>
          (case tasksError of
             Some te \<Rightarrow>
               (Inl (Error (''Failed to fetch tasks for session '' @ row_id session
                            @ '': '' @ pg_message te)), w')
           | None \<Rightarrow>
               fetch_tasks_loop rest
                 (sessionsWithTasks @
                    [with_tasks session (case tasksData of None \<Rightarrow> [] | Some ts \<Rightarrow> ts)])
                 w'))"

text \<open>The body of the \<^verbatim>\<open>try\<close> block of \<^verbatim>\<open>fetchSessionsWithTasks\<close>.\<close>

definition fetchSessionsWithTasks_try :: "env \<Rightarrow> (Error + SessionWithTasks list) \<times> env" where
  "fetchSessionsWithTasks_try w =
     (case select_sessions w of
        (Inl e, w') \<Rightarrow> (Inl e, w')
      | (Inr (Response sessions sessionsError), w') \<Rightarrow>
          (case sessionsError of
             Some se \<Rightarrow> (Inl (Error (''Failed to fetch sessions: '' @ pg_message se)), w')
           | None \<Rightarrow>
               (case sessions of
                  None \<Rightarrow> (Inr [], w')
                | Some ss \<Rightarrow>
                    if length ss = 0 then (Inr [], w') else fetch_tasks_loop ss [] w')))"

text \<open>The \<^verbatim>\<open>catch\<close> clause wraps the message of whatever was thrown.\<close>

definition fetchSessionsWithTasks :: "env \<Rightarrow> (Error + SessionWithTasks list) \<times> env" where
  "fetchSessionsWithTasks w =
     (case fetchSessionsWithTasks_try w of
        (Inl e, w') \<Rightarrow> (Inl (Error (''fetchSessionsWithTasks failed: '' @ message e)), w')
      | (Inr r, w') \<Rightarrow> (Inr r, w'))"

text \<open>\<^verbatim>\<open>tasks.map((task) => ({ ...task, session_id: session.id }))\<close>\<close>

definition stamp :: "string \<Rightarrow> TaskData \<Rightarrow> TaskInsert" where
  "stamp sid task =
     \<lparr> task_name = task_name task, sort_order = sort_order task,
       task_planned_minutes = task_planned_minutes task, completed = completed task,
       task_user_id = task_user_id task, session_id = sid \<rparr>"

definition createSessionWithTasks_try ::
  "SessionData \<Rightarrow> TaskData list \<Rightarrow> env \<Rightarrow> (Error + SessionWithTasks) \<times> env"
where
  "createSessionWithTasks_try sessionData taskList w =
     (case insert_session sessionData w of
        (Inl e, w') \<Rightarrow> (Inl e, w')
      | (Inr (Response session sessionError), w') \<Rightarrow>
          (case sessionError of
             Some se \<Rightarrow> (Inl (Error (''Failed to create session: '' @ pg_message se)), w')
           | None \<Rightarrow>
               (case session of
                  None \<Rightarrow> (Inl (Error ''Session creation returned no data''), w')
                | Some s \<Rightarrow>
                    (let tasksToInsert = map (stamp (row_id s)) taskList in
                     if length tasksToInsert > 0 then
                       (case insert_tasks tasksToInsert w' of
                          (Inl e, w'') \<Rightarrow> (Inl e, w'')
                        | (Inr (Response insertedTasksData tasksError), w'') \<Rightarrow>
                            (case tasksError of
                               Some te \<Rightarrow>
                                 (Inl (Error (''Failed to create tasks: '' @ pg_message te)),
                                  w'')
                             | None \<Rightarrow>
                                 (Inr (with_tasks s
                                         (case insertedTasksData of
                                            None \<Rightarrow> [] | Some ts \<Rightarrow> ts)),
                                  w'')))
                     else (Inr (with_tasks s []), w')))))"

definition createSessionWithTasks ::
  "SessionData \<Rightarrow> TaskData list \<Rightarrow> env \<Rightarrow> (Error + SessionWithTasks) \<times> env"
where
  "createSessionWithTasks sessionData taskList w =
     (case createSessionWithTasks_try sessionData taskList w of
        (Inl e, w') \<Rightarrow> (Inl (Error (''createSessionWithTasks failed: '' @ message e)), w')
      | (Inr r, w') \<Rightarrow> (Inr r, w'))"

section \<open>The application, remote variant\<close>

record SessionEntry =
  entry_id :: string
  date :: string
  sessionType :: string
  plannedMinutes :: jsnumber
  actualMinutes :: jsnumber
  tasksCompleted :: jsnumber
  energyAfter :: string
  entry_notes :: string

text \<open>
  The object \<^verbatim>\<open>loadSessions\<close> builds from each fetched row (\<open>entry_id\<close> is \<^verbatim>\<open>id\<close>,
  \<open>entry_notes\<close> is \<^verbatim>\<open>notes\<close>); \<^verbatim>\<open>s.notes || ''\<close> replaces \<^verbatim>\<open>null\<close> and the
  empty string by the empty string.
\<close>

definition toEntry :: "SessionWithTasks \<Rightarrow> SessionEntry" where
  "toEntry s =
     \<lparr> entry_id = row_id s, date = session_date s, sessionType = session_type s,
       plannedMinutes = planned_minutes s, actualMinutes = actual_minutes s,
       tasksCompleted = Null, energyAfter = energy_after s,
       entry_notes = (case row_notes s of None \<Rightarrow> [] | Some n \<Rightarrow> if n = [] then [] else n) \<rparr>"

text \<open>
  The object \<^verbatim>\<open>saveSessions\<close> passes to \<^verbatim>\<open>createSessionWithTasks\<close>;
  \<^verbatim>\<open>entry.notes || null\<close> replaces the empty string by \<^verbatim>\<open>null\<close>.
\<close>

definition toRow :: "SessionEntry \<Rightarrow> string \<Rightarrow> SessionData" where
  "toRow entry uid =
     \<lparr> session_date = date entry, session_type = sessionType entry,
       planned_minutes = plannedMinutes entry, actual_minutes = actualMinutes entry,
       energy_after = energyAfter entry,
       row_notes = (if entry_notes entry = [] then None else Some (entry_notes entry)),
       user_id = uid \<rparr>"

definition loadSessions_remote :: "env \<Rightarrow> (Error + SessionEntry list) \<times> env" where
  "loadSessions_remote w =
     (case auth_session w of
        None \<Rightarrow> (Inr [], w)
      | Some session \<Rightarrow>
          (case fetchSessionsWithTasks w of
             (Inl e, w') \<Rightarrow>
               (Inr [], console_error ''Failed to load sessions from Supabase'' e w')
           | (Inr sessionsWithTasks, w') \<Rightarrow> (Inr (map toEntry sessionsWithTasks), w')))"

definition saveSessions_try :: "SessionEntry \<Rightarrow> env \<Rightarrow> (Error + unit) \<times> env" where
  "saveSessions_try entry w =
     (case auth_session w of
        None \<Rightarrow> (Inl (Error ''Not authenticated''), w)
      | Some session \<Rightarrow>
          (case createSessionWithTasks (toRow entry (auth_user_id session)) [] w of
             (Inl e, w') \<Rightarrow> (Inl e, w')
           | (Inr created, w') \<Rightarrow> (Inr (), w')))"

definition saveSessions_remote :: "SessionEntry \<Rightarrow> env \<Rightarrow> (Error + unit) \<times> env" where
  "saveSessions_remote entry w =
     (case saveSessions_try entry w of
        (Inl e, w') \<Rightarrow> (Inl e, console_error ''Failed to save session to Supabase'' e w')
      | (Inr u, w') \<Rightarrow> (Inr u, w'))"

definition defaultPlannedFor :: "string \<Rightarrow> jsnumber" where
  "defaultPlannedFor t = (if t = ''Green'' then Num 90 else if t = ''Yellow'' then Num 45 else Num 15)"

definition initialForm :: "env \<Rightarrow> SessionEntry" where
  "initialForm w =
     \<lparr> entry_id = [], date = today w, sessionType = ''Green'',
       plannedMinutes = defaultPlannedFor ''Green'', actualMinutes = Num 0,
       tasksCompleted = Null, energyAfter = ''Same'', entry_notes = [] \<rparr>"

text \<open>The component's state: the \<^verbatim>\<open>useState\<close> cells of \<^verbatim>\<open>App\<close>.\<close>

record app =
  sessions :: "SessionEntry list"
  isAuthenticated :: bool
  isLoading :: bool
  form :: SessionEntry
  error :: "string option"

text \<open>
  \<^verbatim>\<open>handleInputChange\<close>; \<open>toNumber\<close> stands for the built-in \<^verbatim>\<open>Number(value)\<close> on a
  non-empty input.
\<close>

definition handleInputChange ::
  "(string \<Rightarrow> jsnumber) \<Rightarrow> string \<Rightarrow> string \<Rightarrow> SessionEntry \<Rightarrow> SessionEntry"
where
  "handleInputChange toNumber name v prev =
     (if name = ''plannedMinutes'' \<or> name = ''actualMinutes'' \<or> name = ''tasksCompleted'' then
        (let num = (if v = [] then NaN else toNumber v) in
         if name = ''tasksCompleted'' then prev\<lparr>tasksCompleted := (if v = [] then Null else num)\<rparr>
         else if name = ''plannedMinutes'' then prev\<lparr>plannedMinutes := num\<rparr>
         else prev\<lparr>actualMinutes := num\<rparr>)
      else if name = ''notes'' then prev\<lparr>entry_notes := v\<rparr>
      else if name = ''date'' then prev\<lparr>date := v\<rparr>
      else prev)"

definition handleSessionTypeChange :: "string \<Rightarrow> SessionEntry \<Rightarrow> SessionEntry" where
  "handleSessionTypeChange v prev = prev\<lparr>sessionType := v, plannedMinutes := defaultPlannedFor v\<rparr>"

text \<open>
  The three guards of \<^verbatim>\<open>handleSave\<close>, in the order of the source: the message of the
  first one that fails. \<^verbatim>\<open>!s\<close> on a string is true of the empty string.
\<close>

definition validate :: "SessionEntry \<Rightarrow> string option" where
  "validate f =
     (if sessionType f = [] then Some ''Session type is required''
      else if energyAfter f = [] then Some ''Energy after is required''
      else if actualMinutes f = Null \<or> actualMinutes f = Undefined \<or> isNaN (actualMinutes f)
        then Some ''Actual minutes is required''
      else None)"

text \<open>\<^verbatim>\<open>(e as Error).message || 'Failed to save session'\<close>\<close>

definition save_error_text :: "Error \<Rightarrow> string" where
  "save_error_text e = (if message e = [] then ''Failed to save session'' else message e)"

definition handleSave_remote :: "app \<times> env \<Rightarrow> app \<times> env" where
  "handleSave_remote = (\<lambda>(a, w).
     (case validate (form a) of
        Some msg \<Rightarrow> (a\<lparr>error := Some msg\<rparr>, w)
      | None \<Rightarrow>
          (case saveSessions_remote (form a) w of
             (Inl e, w') \<Rightarrow> (a\<lparr>error := Some (save_error_text e)\<rparr>, w')
           | (Inr u, w') \<Rightarrow>
               (case loadSessions_remote w' of
                  (Inl e, w'') \<Rightarrow> (a\<lparr>error := Some (save_error_text e)\<rparr>, w'')
                | (Inr loaded, w'') \<Rightarrow>
                    (a\<lparr>error := None, sessions := loaded,
                       form := (initialForm w'')\<lparr>date := today w''\<rparr>\<rparr>, w'')))))"

text \<open>
  \<^verbatim>\<open>handleDelete\<close>: the response of the delete request is awaited and dropped; only a
  throw reaches the \<^verbatim>\<open>catch\<close> clause.
\<close>

definition handleDelete_remote :: "string \<Rightarrow> app \<times> env \<Rightarrow> app \<times> env" where
  "handleDelete_remote sid = (\<lambda>(a, w).
     (case delete_session sid w of
        (Inl e, w') \<Rightarrow> (a, console_error ''Failed to delete session'' e w')
      | (Inr resp, w') \<Rightarrow>
          (case loadSessions_remote w' of
             (Inl e, w'') \<Rightarrow> (a, console_error ''Failed to delete session'' e w'')
           | (Inr loaded, w'') \<Rightarrow> (a\<lparr>sessions := loaded\<rparr>, w''))))"

section \<open>JSON text\<close>

text \<open>
  The values \<^verbatim>\<open>JSON.parse\<close> returns and \<^verbatim>\<open>JSON.stringify\<close> accepts. An object is
  the list of its own properties in enumeration order. Text is made of 8-bit
  characters. A number literal with a fraction or an exponent denotes a
  floating-point number: it is kept as \<open>Decimal\<close> with the literal as written, and
  its numeric value is not interpreted.
\<close>

datatype jsvalue =
  Number jsnumber
| Decimal string
| Boolean bool
| String string
| Array "jsvalue list"
| Object "(string \<times> jsvalue) list"

definition dquote :: char where
  "dquote = CHR 0x22"

definition backslash :: char where
  "backslash = CHR 0x5C"

subsection \<open>Serialisation\<close>

definition digit_char :: "nat \<Rightarrow> char" where
  "digit_char d = char_of (48 + d)"

fun show_nat :: "nat \<Rightarrow> string" where
  "show_nat n = (if n < 10 then [digit_char n] else show_nat (n div 10) @ [digit_char (n mod 10)])"

declare show_nat.simps [simp del]

text \<open>
  Every integer is written with all its digits (JavaScript switches to exponent
  notation from \<open>10\<^sup>2\<^sup>1\<close> on, far beyond any number of minutes).
\<close>

definition show_int :: "int \<Rightarrow> string" where
  "show_int i = (if i < 0 then CHR ''-'' # show_nat (nat (- i)) else show_nat (nat i))"

definition hex_digit :: "nat \<Rightarrow> char" where
  "hex_digit d = (if d < 10 then char_of (48 + d) else char_of (87 + d))"

text \<open>
  How \<^verbatim>\<open>JSON.stringify\<close> writes one character of a string: the quote and the
  backslash escaped, the short escapes for backspace, tab, line feed, form feed and
  carriage return, \<^verbatim>\<open>\u00XX\<close> for the other control characters, everything else as
  it is.
\<close>

definition escape_char :: "char \<Rightarrow> string" where
  "escape_char c =
     (if c = dquote then [backslash, dquote]
      else if c = backslash then [backslash, backslash]
      else if c = CHR 0x08 then [backslash, CHR ''b'']
      else if c = CHR 0x09 then [backslash, CHR ''t'']
      else if c = CHR 0x0A then [backslash, CHR ''n'']
      else if c = CHR 0x0C then [backslash, CHR ''f'']
      else if c = CHR 0x0D then [backslash, CHR ''r'']
      else if (of_char c :: nat) < 32 then
        [backslash, CHR ''u'', CHR ''0'', CHR ''0'',
         hex_digit (of_char c div 16), hex_digit (of_char c mod 16)]
      else [c])"

definition quote :: "string \<Rightarrow> string" where
  "quote s = dquote # concat (map escape_char s) @ [dquote]"

fun join :: "string list \<Rightarrow> string" where
  "join [] = []"
| "join [x] = x"
| "join (x # y # zs) = x @ CHR '','' # join (y # zs)"

text \<open>
  An array element that has no JSON text (\<^verbatim>\<open>undefined\<close>) is written \<^verbatim>\<open>null\<close>; an
  object property that has none is left out.
\<close>

definition element_text :: "string option \<Rightarrow> string" where
  "element_text t = (case t of None \<Rightarrow> ''null'' | Some x \<Rightarrow> x)"

fun member_texts :: "(string \<times> string option) list \<Rightarrow> string list" where
  "member_texts [] = []"
| "member_texts ((k, None) # ps) = member_texts ps"
| "member_texts ((k, Some t) # ps) = (quote k @ CHR '':'' # t) # member_texts ps"

text \<open>\<^verbatim>\<open>JSON.stringify(v)\<close>; \<open>None\<close> is the result \<^verbatim>\<open>undefined\<close>.\<close>

primrec JSON_stringify :: "jsvalue \<Rightarrow> string option" where
  "JSON_stringify (Number x) =
     (case x of
        Undefined \<Rightarrow> None
      | Null \<Rightarrow> Some ''null''
      | NaN \<Rightarrow> Some ''null''
      | Num i \<Rightarrow> Some (show_int i))"
| "JSON_stringify (Decimal lit) = Some lit"
| "JSON_stringify (Boolean b) = Some (if b then ''true'' else ''false'')"
| "JSON_stringify (String s) = Some (quote s)"
| "JSON_stringify (Array vs) =
     Some (CHR ''['' # join (map element_text (map JSON_stringify vs)) @ '']'')"
| "JSON_stringify (Object ps) =
     Some (CHR ''{'' # join (member_texts (map (map_prod id JSON_stringify) ps)) @ ''}'')"

subsection \<open>Parsing\<close>

definition is_ws :: "char \<Rightarrow> bool" where
  "is_ws c \<longleftrightarrow> c = CHR 0x20 \<or> c = CHR 0x09 \<or> c = CHR 0x0A \<or> c = CHR 0x0D"

definition skip_ws :: "string \<Rightarrow> string" where
  "skip_ws s = dropWhile is_ws s"

definition is_digit :: "char \<Rightarrow> bool" where
  "is_digit c \<longleftrightarrow> 48 \<le> (of_char c :: nat) \<and> (of_char c :: nat) \<le> 57"

definition digit_val :: "char \<Rightarrow> nat" where
  "digit_val c = of_char c - 48"

definition digits_val :: "string \<Rightarrow> nat" where
  "digits_val ds = foldl (\<lambda>a c. 10 * a + digit_val c) 0 ds"

definition hex_val :: "char \<Rightarrow> nat option" where
  "hex_val c =
     (let n = (of_char c :: nat) in
      if 48 \<le> n \<and> n \<le> 57 then Some (n - 48)
      else if 97 \<le> n \<and> n \<le> 102 then Some (n - 87)
      else if 65 \<le> n \<and> n \<le> 70 then Some (n - 55)
      else None)"

fun hex4 :: "string \<Rightarrow> (nat \<times> string) option" where
  "hex4 (a # b # c # d # rest) =
     (case (hex_val a, hex_val b, hex_val c, hex_val d) of
        (Some x, Some y, Some z, Some u) \<Rightarrow> Some (((x * 16 + y) * 16 + z) * 16 + u, rest)
      | _ \<Rightarrow> None)"
| "hex4 s = None"

definition unescape :: "char \<Rightarrow> char option" where
  "unescape e =
     (if e = dquote then Some dquote
      else if e = backslash then Some backslash
      else if e = CHR ''/'' then Some CHR ''/''
      else if e = CHR ''b'' then Some (CHR 0x08)
      else if e = CHR ''f'' then Some (CHR 0x0C)
      else if e = CHR ''n'' then Some (CHR 0x0A)
      else if e = CHR ''r'' then Some (CHR 0x0D)
      else if e = CHR ''t'' then Some (CHR 0x09)
      else None)"

definition cons_char :: "char \<Rightarrow> (string \<times> string) option \<Rightarrow> (string \<times> string) option" where
  "cons_char c r = (case r of None \<Rightarrow> None | Some (s, rest) \<Rightarrow> Some (c # s, rest))"

text \<open>
  The characters of a string literal after its opening quote, up to the closing
  quote: the string and the text after it. A \<^verbatim>\<open>\uXXXX\<close> escape above \<^verbatim>\<open>00FF\<close> names
  a character outside the 8-bit alphabet of this model and is not accepted.
\<close>

fun parse_chars :: "string \<Rightarrow> (string \<times> string) option" where
  "parse_chars [] = None"
| "parse_chars (c # cs) =
     (if c = dquote then Some ([], cs)
      else if c = backslash then
        (case cs of
           [] \<Rightarrow> None
         | e # cs' \<Rightarrow>
             if e = CHR ''u'' then
               (case cs' of
                  a # b # x # y # rest \<Rightarrow>
                    (case hex4 [a, b, x, y] of
                       None \<Rightarrow> None
                     | Some (n, u) \<Rightarrow>
                         if n < 256 then cons_char (char_of n) (parse_chars rest) else None)
                | _ \<Rightarrow> None)
             else
               (case unescape e of
                  None \<Rightarrow> None
                | Some ch \<Rightarrow> cons_char ch (parse_chars cs')))
      else if (of_char c :: nat) < 32 then None
      else cons_char c (parse_chars cs))"

text \<open>
  The optional fraction and exponent of a number literal: the text of the part
  (empty when there is none) and the text after it; \<open>None\<close> when the part is begun
  and not well formed.
\<close>

definition frac_part :: "string \<Rightarrow> (string \<times> string) option" where
  "frac_part s =
     (case s of
        [] \<Rightarrow> Some ([], [])
      | c # cs \<Rightarrow>
          if c = CHR ''.'' then
            (if takeWhile is_digit cs = [] then None
             else Some (c # takeWhile is_digit cs, dropWhile is_digit cs))
          else Some ([], s))"

definition exp_part :: "string \<Rightarrow> (string \<times> string) option" where
  "exp_part s =
     (case s of
        [] \<Rightarrow> Some ([], [])
      | c # cs \<Rightarrow>
          if c = CHR ''e'' \<or> c = CHR ''E'' then
            (let sgn = (case cs of
                          [] \<Rightarrow> []
                        | d # ds \<Rightarrow> if d = CHR ''+'' \<or> d = CHR ''-'' then [d] else []);
                 r = drop (length sgn) cs
             in if takeWhile is_digit r = [] then None
                else Some (c # sgn @ takeWhile is_digit r, dropWhile is_digit r))
          else Some ([], s))"

definition parse_number :: "string \<Rightarrow> (jsvalue \<times> string) option" where
  "parse_number s =
     (let neg = (case s of [] \<Rightarrow> False | c # cs \<Rightarrow> c = CHR ''-'');
          s1 = (if neg then tl s else s);
          ds = (case s1 of
                  [] \<Rightarrow> []
                | c # cs \<Rightarrow> if c = CHR ''0'' then [c] else takeWhile is_digit s1)
      in if ds = [] then None
         else
           (case frac_part (drop (length ds) s1) of
              None \<Rightarrow> None
            | Some (fr, r1) \<Rightarrow>
                (case exp_part r1 of
                   None \<Rightarrow> None
                 | Some (ex, r2) \<Rightarrow>
                     if fr = [] \<and> ex = [] then
                       Some (Number (Num (if neg then - int (digits_val ds)
                                          else int (digits_val ds))), r2)
                     else Some (Decimal ((if neg then ''-'' else []) @ ds @ fr @ ex), r2))))"

definition literal :: "string \<Rightarrow> jsvalue \<Rightarrow> string \<Rightarrow> (jsvalue \<times> string) option" where
  "literal word v s =
     (if take (length word) s = word then Some (v, drop (length word) s) else None)"

subsection \<open>Objects\<close>

text \<open>
  Own properties enumerate with the array-index keys first, in ascending numeric
  order, then the other keys in the order they were created. Defining a property
  that exists replaces its value where it stands.
\<close>

definition is_index :: "string \<Rightarrow> bool" where
  "is_index k \<longleftrightarrow>
     k \<noteq> [] \<and> list_all is_digit k \<and> (k = ''0'' \<or> hd k \<noteq> CHR ''0'') \<and>
     digits_val k < 4294967295"

fun obj_insert :: "string \<Rightarrow> jsvalue \<Rightarrow> (string \<times> jsvalue) list \<Rightarrow> (string \<times> jsvalue) list" where
  "obj_insert k v [] = [(k, v)]"
| "obj_insert k v ((k', v') # ps) =
     (if is_index k \<and> (\<not> is_index k' \<or> digits_val k < digits_val k')
      then (k, v) # (k', v') # ps
      else (k', v') # obj_insert k v ps)"

definition obj_put :: "string \<Rightarrow> jsvalue \<Rightarrow> (string \<times> jsvalue) list \<Rightarrow> (string \<times> jsvalue) list" where
  "obj_put k v ps =
     (if k \<in> set (map fst ps)
      then map (\<lambda>(k', v'). if k' = k then (k', v) else (k', v')) ps
      else obj_insert k v ps)"

subsection \<open>Values\<close>

text \<open>
  The recursive-descent parser. The first argument bounds the nesting of calls; the
  length of the text is always enough for it. Each function returns what it read
  and the text after it.
\<close>

fun parse_value :: "nat \<Rightarrow> string \<Rightarrow> (jsvalue \<times> string) option"
and parse_elements :: "nat \<Rightarrow> string \<Rightarrow> (jsvalue list \<times> string) option"
and parse_members :: "nat \<Rightarrow> (string \<times> jsvalue) list \<Rightarrow> string \<Rightarrow> (jsvalue \<times> string) option"
where
  "parse_value 0 s = None"
| "parse_value (Suc n) s =
     (case skip_ws s of
        [] \<Rightarrow> None
      | c # cs \<Rightarrow>
          if c = CHR ''['' then
            (case skip_ws cs of
               [] \<Rightarrow> None
             | d # ds \<Rightarrow>
                 if d = CHR '']'' then Some (Array [], ds)
                 else (case parse_elements n (d # ds) of
                         None \<Rightarrow> None
                       | Some (vs, r) \<Rightarrow> Some (Array vs, r)))
          else if c = CHR ''{'' then
            (case skip_ws cs of
               [] \<Rightarrow> None
             | d # ds \<Rightarrow>
                 if d = CHR ''}'' then Some (Object [], ds)
                 else parse_members n [] (d # ds))
          else if c = dquote then
            (case parse_chars cs of
               None \<Rightarrow> None
             | Some (str, r) \<Rightarrow> Some (String str, r))
          else if c = CHR ''t'' then literal ''rue'' (Boolean True) cs
          else if c = CHR ''f'' then literal ''alse'' (Boolean False) cs
          else if c = CHR ''n'' then literal ''ull'' (Number Null) cs
          else parse_number (c # cs))"
| "parse_elements 0 s = None"
| "parse_elements (Suc n) s =
     (case parse_value n s of
        None \<Rightarrow> None
      | Some (v, r) \<Rightarrow>
          (case skip_ws r of
             [] \<Rightarrow> None
           | c # cs \<Rightarrow>
               if c = CHR '','' then
                 (case parse_elements n cs of
                    None \<Rightarrow> None
                  | Some (vs, r') \<Rightarrow> Some (v # vs, r'))
               else if c = CHR '']'' then Some ([v], cs)
               else None))"
| "parse_members 0 acc s = None"
| "parse_members (Suc n) acc s =
     (case skip_ws s of
        [] \<Rightarrow> None
      | q # cs \<Rightarrow>
          if q \<noteq> dquote then None
          else
            (case parse_chars cs of
               None \<Rightarrow> None
             | Some (k, r) \<Rightarrow>
                 (case skip_ws r of
                    [] \<Rightarrow> None
                  | c # r1 \<Rightarrow>
                      if c \<noteq> CHR '':'' then None
                      else
                        (case parse_value n r1 of
                           None \<Rightarrow> None
                         | Some (v, r2) \<Rightarrow>
                             (case skip_ws r2 of
                                [] \<Rightarrow> None
                              | e # r3 \<Rightarrow>
                                  if e = CHR '','' then parse_members n (obj_put k v acc) r3
                                  else if e = CHR ''}'' then Some (Object (obj_put k v acc), r3)
                                  else None)))))"

declare parse_value.simps [simp del] parse_elements.simps [simp del] parse_members.simps [simp del]

text \<open>
  \<^verbatim>\<open>JSON.parse(text)\<close>: one value, with nothing but white space after it. \<open>Inl\<close> is
  the \<^verbatim>\<open>SyntaxError\<close> it throws.
\<close>

definition JSON_parse :: "string \<Rightarrow> Error + jsvalue" where
  "JSON_parse s =
     (case parse_value (Suc (length s)) s of
        None \<Rightarrow> Inl (Error ''SyntaxError'')
      | Some (v, r) \<Rightarrow> if skip_ws r = [] then Inr v else Inl (Error ''SyntaxError''))"

section \<open>The application, local variant\<close>

definition STORAGE_KEY :: string where
  "STORAGE_KEY = ''sessionTrackerEntries''"

definition getItem :: "string \<Rightarrow> env \<Rightarrow> string option" where
  "getItem k w = localStorage w k"

definition setItem :: "string \<Rightarrow> string \<Rightarrow> env \<Rightarrow> (Error + unit) \<times> env" where
  "setItem k v w =
     (case setItem_fault w of
        Some e \<Rightarrow> (Inl e, w)
      | None \<Rightarrow> (Inr (), w\<lparr>localStorage := (localStorage w)(k \<mapsto> v)\<rparr>))"

text \<open>
  \<^verbatim>\<open>loadSessions\<close>: \<^verbatim>\<open>!raw\<close> holds of \<^verbatim>\<open>null\<close> and of the empty string; the cast
  \<^verbatim>\<open>parsed as SessionEntry[]\<close> checks nothing, so the result is whatever the array
  holds.
\<close>

fun isArray :: "jsvalue \<Rightarrow> bool" where
  "isArray (Array xs) = True"
| "isArray v = False"

fun items :: "jsvalue \<Rightarrow> jsvalue list" where
  "items (Array xs) = xs"
| "items v = []"

definition loadSessions_local :: "env \<Rightarrow> Error + jsvalue list" where
  "loadSessions_local w =
     (case getItem STORAGE_KEY w of
        None \<Rightarrow> Inr []
      | Some raw \<Rightarrow>
          if raw = [] then Inr []
          else
            (case JSON_parse raw of
               Inl e \<Rightarrow> Inr []
             | Inr parsed \<Rightarrow> if \<not> isArray parsed then Inr [] else Inr (items parsed)))"

text \<open>
  \<^verbatim>\<open>saveSessions\<close>; a key set to \<^verbatim>\<open>undefined\<close> would hold the text \<^verbatim>\<open>undefined\<close>.
\<close>

definition saveSessions_local :: "jsvalue list \<Rightarrow> env \<Rightarrow> (Error + unit) \<times> env" where
  "saveSessions_local entries w =
     (case setItem STORAGE_KEY
             (case JSON_stringify (Array entries) of None \<Rightarrow> ''undefined'' | Some t \<Rightarrow> t) w of
        (Inl e, w') \<Rightarrow> (Inr (), console_error ''Failed to save sessions to localStorage'' e w')
      | (Inr u, w') \<Rightarrow> (Inr (), w'))"

text \<open>\<^verbatim>\<open>saveSessions(loadSessions())\<close>\<close>

definition save_loaded :: "env \<Rightarrow> (Error + unit) \<times> env" where
  "save_loaded w =
     (case loadSessions_local w of
        Inl e \<Rightarrow> (Inl e, w)
      | Inr entries \<Rightarrow> saveSessions_local entries w)"

text \<open>A \<^verbatim>\<open>SessionEntry\<close> as the object it is at run time, its keys in the order of the form.\<close>

definition entry_obj :: "SessionEntry \<Rightarrow> jsvalue" where
  "entry_obj e =
     Object [(''id'', String (entry_id e)), (''date'', String (date e)),
             (''sessionType'', String (sessionType e)),
             (''plannedMinutes'', Number (plannedMinutes e)),
             (''actualMinutes'', Number (actualMinutes e)),
             (''tasksCompleted'', Number (tasksCompleted e)),
             (''energyAfter'', String (energyAfter e)),
             (''notes'', String (entry_notes e))]"

text \<open>
  An entry as the data model has it: planned and actual minutes are integers, the
  task count is an integer or \<^verbatim>\<open>null\<close>.
\<close>

fun is_int :: "jsnumber \<Rightarrow> bool" where
  "is_int (Num i) = True"
| "is_int x = False"

definition valid_entry :: "SessionEntry \<Rightarrow> bool" where
  "valid_entry e \<longleftrightarrow>
     is_int (plannedMinutes e) \<and> is_int (actualMinutes e) \<and>
     (tasksCompleted e = Null \<or> is_int (tasksCompleted e))"

record app_local =
  sessions_l :: "jsvalue list"
  form_l :: SessionEntry
  error_l :: "string option"

definition handleSave_local :: "app_local \<times> env \<Rightarrow> app_local \<times> env" where
  "handleSave_local = (\<lambda>(a, w).
     (case validate (form_l a) of
        Some msg \<Rightarrow> (a\<lparr>error_l := Some msg\<rparr>, w)
      | None \<Rightarrow>
          (let id = randomUUID w (uuid_calls w);
               entry = entry_obj ((form_l a)\<lparr>entry_id := id\<rparr>);
               next = entry # sessions_l a;
               w' = snd (saveSessions_local next (w\<lparr>uuid_calls := Suc (uuid_calls w)\<rparr>))
           in (a\<lparr>error_l := None, sessions_l := next,
                 form_l := (initialForm w')\<lparr>date := today w'\<rparr>\<rparr>, w'))))"

subsection \<open>Notions for the round trip through JSON text\<close>

text \<open>What may follow a value inside an array or an object, or at the end of the text.\<close>

definition closes :: "string \<Rightarrow> bool" where
  "closes r \<longleftrightarrow> r = [] \<or> hd r = CHR '','' \<or> hd r = CHR '']'' \<or> hd r = CHR ''}''"

text \<open>The values of the fields of a valid entry: a string, an integer, \<^verbatim>\<open>null\<close>.\<close>

fun scalar :: "jsvalue \<Rightarrow> bool" where
  "scalar (String s) = True"
| "scalar (Number x) = (x = Null \<or> is_int x)"
| "scalar v = False"

text \<open>The text \<^verbatim>\<open>JSON.stringify\<close> writes for an entry inside an array.\<close>

definition entry_text :: "SessionEntry \<Rightarrow> string" where
  "entry_text e = element_text (JSON_stringify (entry_obj e))"

section \<open>Worked examples\<close>

text \<open>
  A store with three sessions (two on the same day) and three tasks under the first
  one, a signed-in user, and a server that refuses nothing; then payloads, a form and
  ways for the server to refuse.
\<close>

definition example_row :: "string \<Rightarrow> string \<Rightarrow> string \<Rightarrow> SessionRow" where
  "example_row i d c =
     \<lparr> session_date = d, session_type = ''Green'', planned_minutes = Num 90,
       actual_minutes = Num 80, energy_after = ''Same'', row_notes = None, user_id = ''u1'',
       row_id = i, created_at = c \<rparr>"

definition example_task :: "string \<Rightarrow> string \<Rightarrow> int option \<Rightarrow> TaskRow" where
  "example_task i sid so =
     \<lparr> task_name = ''read'', sort_order = so, task_planned_minutes = None, completed = False,
       task_user_id = ''u1'', session_id = sid, task_id = i,
       task_created_at = ''2024-01-01T09:00:00'' \<rparr>"

definition example_env :: env where
  "example_env =
     \<lparr> sessions_table =
         [example_row ''s1'' ''2024-01-01'' ''2024-01-01T09:00:00'',
          example_row ''s2'' ''2024-01-03'' ''2024-01-03T08:00:00'',
          example_row ''s3'' ''2024-01-01'' ''2024-01-01T10:00:00''],
       session_tasks_table =
         [example_task ''t1'' ''s1'' (Some 2), example_task ''t2'' ''s1'' None,
          example_task ''t3'' ''s1'' (Some 1)],
       serial = 3, new_id = (\<lambda>n. ''id'' @ show_nat n), clock = (\<lambda>n. ''2024-01-04T00:00:00''),
       faults = (\<lambda>r. None), requests = [],
       auth_session = Some \<lparr> auth_user_id = ''u1'' \<rparr>, console = [],
       today = ''2024-01-04'', localStorage = (\<lambda>k. None), setItem_fault = None,
       randomUUID = (\<lambda>n. ''uuid'' @ show_nat n), uuid_calls = 0 \<rparr>"

definition example_fetched :: "SessionWithTasks list" where
  "example_fetched =
     [with_tasks (example_row ''s2'' ''2024-01-03'' ''2024-01-03T08:00:00'') [],
      with_tasks (example_row ''s3'' ''2024-01-01'' ''2024-01-01T10:00:00'') [],
      with_tasks (example_row ''s1'' ''2024-01-01'' ''2024-01-01T09:00:00'')
        [example_task ''t3'' ''s1'' (Some 1), example_task ''t1'' ''s1'' (Some 2),
         example_task ''t2'' ''s1'' None]]"

definition example_payload :: SessionData where
  "example_payload =
     \<lparr> session_date = ''2024-01-04'', session_type = ''Red'', planned_minutes = Num 15,
       actual_minutes = Num 10, energy_after = ''Worse'', row_notes = None, user_id = ''u1'' \<rparr>"

definition example_taskdata :: TaskData where
  "example_taskdata =
     \<lparr> task_name = ''write'', sort_order = Some 1, task_planned_minutes = None,
       completed = False, task_user_id = ''u1'' \<rparr>"

definition refuse_task_inserts :: "request \<Rightarrow> fault option" where
  "refuse_task_inserts r =
     (case r of InsertTasks ts \<Rightarrow> Some (Rejected (PostgrestError ''tasks refused'')) | _ \<Rightarrow> None)"

definition refuse_tasks_of :: "string \<Rightarrow> request \<Rightarrow> fault option" where
  "refuse_tasks_of sid r =
     (if r = SelectTasks sid then Some (Rejected (PostgrestError ''timeout'')) else None)"

definition refuse_delete :: "request \<Rightarrow> fault option" where
  "refuse_delete r =
     (case r of DeleteSession sid \<Rightarrow> Some (Rejected (PostgrestError ''denied'')) | _ \<Rightarrow> None)"

definition example_entry :: SessionEntry where
  "example_entry =
     \<lparr> entry_id = [], date = ''2024-01-01'', sessionType = ''Red'', plannedMinutes = Num 15,
       actualMinutes = Num 10, tasksCompleted = Num 2, energyAfter = ''Worse'',
       entry_notes = [] \<rparr>"

definition example_app :: app where
  "example_app =
     \<lparr> sessions = [], isAuthenticated = True, isLoading = False, form = example_entry,
       error = None \<rparr>"

definition example_app_local :: app_local where
  "example_app_local = \<lparr> sessions_l = [], form_l = example_entry, error_l = None \<rparr>"

definition example_entry2 :: SessionEntry where
  "example_entry2 =
     \<lparr> entry_id = ''b7'', date = ''2024-01-02'', sessionType = ''Green'', plannedMinutes = Num 90,
       actualMinutes = Num (- 5), tasksCompleted = Null, energyAfter = ''Same'',
       entry_notes = [CHR ''a'', CHR 0x22, CHR 0x5C, CHR 0x0A, CHR 0x01, CHR ''z''] \<rparr>"

section \<open>Properties of the remote store functions\<close>

subsection \<open>What a request leaves alone\<close>

lemma send_fields [simp]:
  "faults (send r w) = faults w"
  "sessions_table (send r w) = sessions_table w"
  "session_tasks_table (send r w) = session_tasks_table w"
  "requests (send r w) = requests w @ [r]"
  "auth_session (send r w) = auth_session w"
  "console (send r w) = console w"
  "serial (send r w) = serial w"
  "new_id (send r w) = new_id w"
  "clock (send r w) = clock w"
  by (simp_all add: send_def)

lemma console_error_fields [simp]:
  "faults (console_error m e w) = faults w"
  "sessions_table (console_error m e w) = sessions_table w"
  "session_tasks_table (console_error m e w) = session_tasks_table w"
  "requests (console_error m e w) = requests w"
  "auth_session (console_error m e w) = auth_session w"
  "console (console_error m e w) = console w @ [(m, e)]"
  by (simp_all add: console_error_def)

lemma snd_faulty [simp]: "snd (faulty f w) = w"
  by (simp add: faulty_def split: fault.splits)

subsection \<open>Ordered results\<close>

lemma set_insert_by: "set (insert_by le x xs) = insert x (set xs)"
  by (induction xs) auto

lemma sorted_wrt_insert_by:
  assumes total: "\<And>a b. le a b \<or> le b a" and trans: "\<And>a b c. le a b \<Longrightarrow> le b c \<Longrightarrow> le a c"
  shows "sorted_wrt le xs \<Longrightarrow> sorted_wrt le (insert_by le x xs)"
proof (induction xs)
  case Nil
  then show ?case by simp
next
  case (Cons y ys)
  show ?case
  proof (cases "le x y")
    case True
    with Cons.prems trans show ?thesis by auto
  next
    case False
    with total have "le y x" by blast
    with Cons False show ?thesis by (auto simp: set_insert_by)
  qed
qed

lemma sorted_wrt_order_by:
  assumes "\<And>a b. le a b \<or> le b a" and "\<And>a b c. le a b \<Longrightarrow> le b c \<Longrightarrow> le a c"
  shows "sorted_wrt le (order_by le xs)"
  by (induction xs) (simp_all add: sorted_wrt_insert_by [OF assms])

lemma set_order_by: "set (order_by le xs) = set xs"
  by (induction xs) (simp_all add: set_insert_by)

lemma sessions_desc_total: "sessions_desc a b \<or> sessions_desc b a"
  unfolding sessions_desc_def by auto

lemma sessions_desc_trans: "sessions_desc a b \<Longrightarrow> sessions_desc b c \<Longrightarrow> sessions_desc a c"
  unfolding sessions_desc_def by auto

lemma sort_order_le_total: "sort_order_le a b \<or> sort_order_le b a"
  by (cases a; cases b) auto

lemma sort_order_le_trans: "sort_order_le a b \<Longrightarrow> sort_order_le b c \<Longrightarrow> sort_order_le a c"
  by (cases a; cases b; cases c) auto

lemma sorted_select_sessions: "sorted_wrt sessions_desc (order_by sessions_desc (xs :: SessionRow list))"
proof (rule sorted_wrt_order_by)
  fix a b c :: SessionRow
  show "sessions_desc a b \<or> sessions_desc b a" by (rule sessions_desc_total)
  show "sessions_desc a b \<Longrightarrow> sessions_desc b c \<Longrightarrow> sessions_desc a c" by (rule sessions_desc_trans)
qed

lemma sorted_select_tasks: "sorted_wrt tasks_asc (order_by tasks_asc xs)"
proof (rule sorted_wrt_order_by)
  fix a b c :: TaskRow
  show "tasks_asc a b \<or> tasks_asc b a"
    unfolding tasks_asc_def by (rule sort_order_le_total)
  show "tasks_asc a b \<Longrightarrow> tasks_asc b c \<Longrightarrow> tasks_asc a c"
    unfolding tasks_asc_def by (rule sort_order_le_trans)
qed

lemma select_tasks_Inr:
  "select_tasks sid w = (Inr (Response d e), w') \<Longrightarrow> e = None \<Longrightarrow>
     sorted_wrt tasks_asc (case d of None \<Rightarrow> [] | Some ts \<Rightarrow> ts)"
  by (auto simp: select_tasks_def faulty_def sorted_select_tasks split: option.splits fault.splits)

lemma fetch_tasks_loop_Inr:
  "fetch_tasks_loop ss acc w = (Inr r, w') \<Longrightarrow>
     \<exists>tss. length tss = length ss \<and> r = acc @ map2 with_tasks ss tss \<and>
           (\<forall>ts \<in> set tss. sorted_wrt tasks_asc ts)"
proof (induction ss arbitrary: acc w)
  case Nil
  then show ?case by simp
next
  case (Cons s ss)
  from Cons.prems obtain d w1 where
    sel: "select_tasks (row_id s) w = (Inr (Response d None), w1)" and
    rest: "fetch_tasks_loop ss (acc @ [with_tasks s (case d of None \<Rightarrow> [] | Some ts \<Rightarrow> ts)]) w1 = (Inr r, w')"
    by (auto split: prod.splits sum.splits response.splits option.splits)
  from Cons.IH [OF rest] obtain tss where
    tss: "length tss = length ss"
      "r = (acc @ [with_tasks s (case d of None \<Rightarrow> [] | Some ts \<Rightarrow> ts)]) @ map2 with_tasks ss tss"
      "\<forall>ts \<in> set tss. sorted_wrt tasks_asc ts"
    by blast
  let ?t = "case d of None \<Rightarrow> [] | Some ts \<Rightarrow> ts"
  have "sorted_wrt tasks_asc ?t" using select_tasks_Inr [OF sel] by simp
  with tss have "length (?t # tss) = length (s # ss) \<and> r = acc @ map2 with_tasks (s # ss) (?t # tss) \<and>
           (\<forall>ts \<in> set (?t # tss). sorted_wrt tasks_asc ts)"
    by simp
  then show ?case by blast
qed

lemma sessions_desc_with_tasks [simp]:
  "sessions_desc (with_tasks a x) (with_tasks b y) = sessions_desc a b"
  by (simp add: sessions_desc_def with_tasks_def)

lemma sorted_wrt_map2_with_tasks:
  "length tss = length ss \<Longrightarrow> sorted_wrt sessions_desc ss \<Longrightarrow>
     sorted_wrt sessions_desc (map2 with_tasks ss tss)"
proof (induction ss arbitrary: tss)
  case Nil
  then show ?case by simp
next
  case (Cons s ss)
  then obtain t ts where tss: "tss = t # ts" by (cases tss) auto
  with Cons show ?case
    by (auto simp: set_zip) 
qed

lemma tasks_with_tasks [simp]: "tasks (with_tasks s ts) = ts"
  by (simp add: with_tasks_def)

lemma row_id_with_tasks [simp]: "row_id (with_tasks s ts) = row_id s"
  by (simp add: with_tasks_def)

lemma map_row_id_map2: "length tss = length ss \<Longrightarrow> map row_id (map2 with_tasks ss tss) = map row_id ss"
  by (induction ss arbitrary: tss) (auto simp: length_Suc_conv)

lemma fetchSessionsWithTasks_try_Inr:
  assumes "fetchSessionsWithTasks_try w = (Inr rs, w')"
  shows "sorted_wrt sessions_desc rs \<and> (\<forall>r \<in> set rs. sorted_wrt tasks_asc (tasks r))"
proof (cases "rs = []")
  case True
  then show ?thesis by simp
next
  case False
  with assms obtain w1 where
    loop: "fetch_tasks_loop (order_by sessions_desc (sessions_table w)) [] w1 = (Inr rs, w')"
    by (auto simp: fetchSessionsWithTasks_try_def select_sessions_def faulty_def
             split: prod.splits sum.splits response.splits option.splits fault.splits if_splits)
  from fetch_tasks_loop_Inr [OF loop] obtain tss where
    tss: "length tss = length (order_by sessions_desc (sessions_table w))"
      "rs = map2 with_tasks (order_by sessions_desc (sessions_table w)) tss"
      "\<forall>ts \<in> set tss. sorted_wrt tasks_asc ts"
    by auto
  have "sorted_wrt sessions_desc rs"
    using tss(1,2) sorted_wrt_map2_with_tasks sorted_select_sessions by simp
  moreover have "\<forall>r \<in> set rs. sorted_wrt tasks_asc (tasks r)"
    using tss by (auto simp: set_zip)
  ultimately show ?thesis by simp
qed

text \<open>
  C3. Whenever \<^verbatim>\<open>fetchSessionsWithTasks\<close> returns, the sessions it returns are ordered by
  \<^verbatim>\<open>session_date\<close> descending, ties broken by \<^verbatim>\<open>created_at\<close> descending: of two
  entries, the earlier one has the later date, or the same date and a \<^verbatim>\<open>created_at\<close>
  that is not earlier. Within each returned session the tasks are ordered by
  \<^verbatim>\<open>sort_order\<close> ascending (tasks without a \<^verbatim>\<open>sort_order\<close> last).
\<close>

theorem fetchSessionsWithTasks_sorted:
  assumes "fst (fetchSessionsWithTasks w) = Inr rs"
  shows "sorted_wrt (\<lambda>a b. session_date a > session_date b \<or>
                        (session_date a = session_date b \<and> created_at a \<ge> created_at b)) rs
         \<and> (\<forall>r \<in> set rs. sorted_wrt (\<lambda>t u. sort_order_le (sort_order t) (sort_order u)) (tasks r))"
proof -
  from assms have "fetchSessionsWithTasks_try w = (Inr rs, snd (fetchSessionsWithTasks_try w))"
    by (cases "fetchSessionsWithTasks_try w"; cases "fst (fetchSessionsWithTasks_try w)")
       (auto simp: fetchSessionsWithTasks_def)
  from fetchSessionsWithTasks_try_Inr [OF this] show ?thesis
    by (simp add: sessions_desc_def [abs_def] tasks_asc_def [abs_def])
qed

text \<open>
  The example store: the session of 3 January first, then the two of 1 January, the
  later-created first; the tasks of the last one in the order 1, 2, none.
\<close>

theorem fetchSessionsWithTasks_sorted_witness:
  "fst (fetchSessionsWithTasks example_env) = Inr example_fetched
   \<and> sorted_wrt (\<lambda>a b. session_date a > session_date b \<or>
                        (session_date a = session_date b \<and> created_at a \<ge> created_at b)) example_fetched
   \<and> list_all (\<lambda>r. sorted_wrt (\<lambda>t u. sort_order_le (sort_order t) (sort_order u)) (tasks r))
        example_fetched"
proof -
  have h: "fst (fetchSessionsWithTasks example_env) = Inr example_fetched"
    by code_simp
  from h fetchSessionsWithTasks_sorted [OF h] show ?thesis by (simp add: list_all_iff)
qed

subsection \<open>Failures\<close>

lemma fetch_tasks_loop_fails:
  assumes "s \<in> set ss" and "faults w (SelectTasks (row_id s)) = Some f" and "f \<noteq> NoData"
  shows "\<exists>s' \<in> set ss. \<exists>cause. fst (fetch_tasks_loop ss acc w) = Inl (Error cause) \<and>
           ((\<exists>pe. faults w (SelectTasks (row_id s')) = Some (Rejected pe) \<and>
                  cause = ''Failed to fetch tasks for session '' @ row_id s' @ '': '' @ pg_message pe)
            \<or> (\<exists>e. faults w (SelectTasks (row_id s')) = Some (Thrown e) \<and> cause = message e))"
  using assms
proof (induction ss arbitrary: acc w)
  case Nil
  then show ?case by simp
next
  case (Cons a ss)
  show ?case
  proof (cases "faults w (SelectTasks (row_id a))")
    case None
    with Cons.prems have "s \<in> set ss" by auto
    moreover have "faults (send (SelectTasks (row_id a)) w) (SelectTasks (row_id s)) = Some f"
      using Cons.prems by simp
    ultimately obtain s' cause where
      "s' \<in> set ss"
      "fst (fetch_tasks_loop ss (acc @ [with_tasks a (order_by tasks_asc (filter (\<lambda>t. session_id t = row_id a) (session_tasks_table w)))]) (send (SelectTasks (row_id a)) w)) = Inl (Error cause)"
      "(\<exists>pe. faults w (SelectTasks (row_id s')) = Some (Rejected pe) \<and>
                  cause = ''Failed to fetch tasks for session '' @ row_id s' @ '': '' @ pg_message pe)
            \<or> (\<exists>e. faults w (SelectTasks (row_id s')) = Some (Thrown e) \<and> cause = message e)"
      using Cons.IH [of "send (SelectTasks (row_id a)) w"] Cons.prems(3) by fastforce
    with None show ?thesis
      by (intro bexI [of _ s'] exI [of _ cause]) (auto simp: select_tasks_def)
  next
    case (Some g)
    show ?thesis
    proof (cases g)
      case (Rejected pe)
      with Some show ?thesis
        by (intro bexI [of _ a]) (auto simp: select_tasks_def faulty_def)
    next
      case NoData
      with Some Cons.prems have "s \<in> set ss" by auto
      moreover have "faults (send (SelectTasks (row_id a)) w) (SelectTasks (row_id s)) = Some f"
        using Cons.prems by simp
      ultimately obtain s' cause where
        "s' \<in> set ss"
        "fst (fetch_tasks_loop ss (acc @ [with_tasks a []]) (send (SelectTasks (row_id a)) w)) = Inl (Error cause)"
        "(\<exists>pe. faults w (SelectTasks (row_id s')) = Some (Rejected pe) \<and>
                  cause = ''Failed to fetch tasks for session '' @ row_id s' @ '': '' @ pg_message pe)
            \<or> (\<exists>e. faults w (SelectTasks (row_id s')) = Some (Thrown e) \<and> cause = message e)"
        using Cons.IH [of "send (SelectTasks (row_id a)) w"] Cons.prems(3) by fastforce
      with Some NoData show ?thesis
        by (intro bexI [of _ s'] exI [of _ cause]) (auto simp: select_tasks_def faulty_def)
    next
      case (Thrown e)
      with Some show ?thesis
        by (intro bexI [of _ a] exI [of _ "message e"]) (auto simp: select_tasks_def faulty_def)
    qed
  qed
qed

lemma fetch_tasks_loop_ok:
  "\<forall>s \<in> set ss. faults w (SelectTasks (row_id s)) = None \<Longrightarrow>
     \<exists>r. fst (fetch_tasks_loop ss acc w) = Inr r"
proof (induction ss arbitrary: acc w)
  case Nil
  then show ?case by simp
next
  case (Cons a ss)
  have "\<forall>s \<in> set ss. faults (send (SelectTasks (row_id a)) w) (SelectTasks (row_id s)) = None"
    using Cons.prems by simp
  from Cons.IH [OF this] Cons.prems show ?case
    by (simp add: select_tasks_def)
qed

lemma fetchSessionsWithTasks_ok:
  assumes "faults w SelectSessions = None"
    and "\<forall>s \<in> set (sessions_table w). faults w (SelectTasks (row_id s)) = None"
  shows "\<exists>rs. fst (fetchSessionsWithTasks w) = Inr rs \<and>
              map row_id rs = map row_id (order_by sessions_desc (sessions_table w))"
proof -
  let ?ss = "order_by sessions_desc (sessions_table w)"
  let ?w1 = "send SelectSessions w"
  have "\<forall>s \<in> set ?ss. faults ?w1 (SelectTasks (row_id s)) = None"
    using assms(2) by (simp add: set_order_by)
  from fetch_tasks_loop_ok [OF this, of "[]"] obtain r where
    r: "fst (fetch_tasks_loop ?ss [] ?w1) = Inr r" by blast
  then have "fetch_tasks_loop ?ss [] ?w1 = (Inr r, snd (fetch_tasks_loop ?ss [] ?w1))"
    by (cases "fetch_tasks_loop ?ss [] ?w1") simp
  from fetch_tasks_loop_Inr [OF this] obtain tss where
    "length tss = length ?ss" "r = map2 with_tasks ?ss tss"
    by auto
  then have ids: "map row_id r = map row_id ?ss"
    using map_row_id_map2 [of tss ?ss] by simp
  have "fst (fetchSessionsWithTasks w) = Inr r"
  proof (cases "?ss = []")
    case True
    with r assms(1) show ?thesis
      by (simp add: fetchSessionsWithTasks_def fetchSessionsWithTasks_try_def select_sessions_def)
  next
    case False
    with r assms(1) show ?thesis
      by (cases "fetch_tasks_loop ?ss [] ?w1")
         (simp add: fetchSessionsWithTasks_def fetchSessionsWithTasks_try_def select_sessions_def)
  qed
  with ids show ?thesis by blast
qed

text \<open>
  C4. If the session query fails, or the task query of any one session fails,
  \<^verbatim>\<open>fetchSessionsWithTasks\<close> fails as a whole: its result is an error and no list, not
  even of the sessions fetched before the failure. The message of the error ends
  with the message of the cause: of the error the session query returned or threw,
  or of the error the task query of some returned session returned or threw.
\<close>

theorem fetchSessionsWithTasks_fails_whole:
  "(faults w SelectSessions = Some (Rejected pe) \<longrightarrow>
      fst (fetchSessionsWithTasks w) =
        Inl (Error (''fetchSessionsWithTasks failed: Failed to fetch sessions: '' @ pg_message pe)))
   \<and> (faults w SelectSessions = Some (Thrown e) \<longrightarrow>
      fst (fetchSessionsWithTasks w) =
        Inl (Error (''fetchSessionsWithTasks failed: '' @ message e)))
   \<and> (faults w SelectSessions = None \<and> s \<in> set (sessions_table w) \<and>
      faults w (SelectTasks (row_id s)) = Some f \<and> f \<noteq> NoData \<longrightarrow>
      (\<exists>s' \<in> set (sessions_table w). \<exists>cause.
         fst (fetchSessionsWithTasks w) =
           Inl (Error (''fetchSessionsWithTasks failed: '' @ cause)) \<and>
         ((\<exists>pe'. faults w (SelectTasks (row_id s')) = Some (Rejected pe') \<and>
                 cause = ''Failed to fetch tasks for session '' @ row_id s' @ '': '' @ pg_message pe')
          \<or> (\<exists>e'. faults w (SelectTasks (row_id s')) = Some (Thrown e') \<and> cause = message e'))))"
proof (intro conjI impI)
  assume "faults w SelectSessions = Some (Rejected pe)"
  then show "fst (fetchSessionsWithTasks w) =
        Inl (Error (''fetchSessionsWithTasks failed: Failed to fetch sessions: '' @ pg_message pe))"
    by (simp add: fetchSessionsWithTasks_def fetchSessionsWithTasks_try_def select_sessions_def faulty_def)
next
  assume "faults w SelectSessions = Some (Thrown e)"
  then show "fst (fetchSessionsWithTasks w) =
        Inl (Error (''fetchSessionsWithTasks failed: '' @ message e))"
    by (simp add: fetchSessionsWithTasks_def fetchSessionsWithTasks_try_def select_sessions_def faulty_def)
next
  assume a: "faults w SelectSessions = None \<and> s \<in> set (sessions_table w) \<and>
      faults w (SelectTasks (row_id s)) = Some f \<and> f \<noteq> NoData"
  let ?ss = "order_by sessions_desc (sessions_table w)"
  let ?w1 = "send SelectSessions w"
  from a have "s \<in> set ?ss" "faults ?w1 (SelectTasks (row_id s)) = Some f" "f \<noteq> NoData"
    by (simp_all add: set_order_by)
  from fetch_tasks_loop_fails [OF this, of "[]"] obtain s' cause where
    s': "s' \<in> set ?ss" "fst (fetch_tasks_loop ?ss [] ?w1) = Inl (Error cause)"
      "(\<exists>pe. faults w (SelectTasks (row_id s')) = Some (Rejected pe) \<and>
                  cause = ''Failed to fetch tasks for session '' @ row_id s' @ '': '' @ pg_message pe)
            \<or> (\<exists>e. faults w (SelectTasks (row_id s')) = Some (Thrown e) \<and> cause = message e)"
    by auto
  from a have ne: "?ss \<noteq> []" using \<open>s \<in> set ?ss\<close> by auto
  have "fst (fetchSessionsWithTasks w) = Inl (Error (''fetchSessionsWithTasks failed: '' @ cause))"
    using a s'(2) ne
    by (cases "fetch_tasks_loop ?ss [] ?w1")
       (auto simp: fetchSessionsWithTasks_def fetchSessionsWithTasks_try_def select_sessions_def)
  with s' show "\<exists>s' \<in> set (sessions_table w). \<exists>cause.
         fst (fetchSessionsWithTasks w) =
           Inl (Error (''fetchSessionsWithTasks failed: '' @ cause)) \<and>
         ((\<exists>pe'. faults w (SelectTasks (row_id s')) = Some (Rejected pe') \<and>
                 cause = ''Failed to fetch tasks for session '' @ row_id s' @ '': '' @ pg_message pe')
          \<or> (\<exists>e'. faults w (SelectTasks (row_id s')) = Some (Thrown e') \<and> cause = message e'))"
    by (auto simp: set_order_by)
qed

text \<open>
  The example store with the task query of session \<^verbatim>\<open>s3\<close> refused: the other two
  sessions are not returned either.
\<close>

theorem fetchSessionsWithTasks_fails_whole_witness:
  "faults (example_env\<lparr>faults := refuse_tasks_of ''s3''\<rparr>) SelectSessions = None
   \<and> example_row ''s3'' ''2024-01-01'' ''2024-01-01T10:00:00''
        \<in> set (sessions_table (example_env\<lparr>faults := refuse_tasks_of ''s3''\<rparr>))
   \<and> faults (example_env\<lparr>faults := refuse_tasks_of ''s3''\<rparr>)
        (SelectTasks (row_id (example_row ''s3'' ''2024-01-01'' ''2024-01-01T10:00:00'')))
        = Some (Rejected (PostgrestError ''timeout''))
   \<and> fst (fetchSessionsWithTasks (example_env\<lparr>faults := refuse_tasks_of ''s3''\<rparr>)) =
        Inl (Error ''fetchSessionsWithTasks failed: Failed to fetch tasks for session s3: timeout'')
   \<and> (\<exists>s' \<in> set (sessions_table (example_env\<lparr>faults := refuse_tasks_of ''s3''\<rparr>)). \<exists>cause.
         fst (fetchSessionsWithTasks (example_env\<lparr>faults := refuse_tasks_of ''s3''\<rparr>)) =
           Inl (Error (''fetchSessionsWithTasks failed: '' @ cause)) \<and>
         ((\<exists>pe'. faults (example_env\<lparr>faults := refuse_tasks_of ''s3''\<rparr>) (SelectTasks (row_id s'))
                   = Some (Rejected pe') \<and>
                 cause = ''Failed to fetch tasks for session '' @ row_id s' @ '': '' @ pg_message pe')
          \<or> (\<exists>e'. faults (example_env\<lparr>faults := refuse_tasks_of ''s3''\<rparr>) (SelectTasks (row_id s'))
                   = Some (Thrown e') \<and> cause = message e')))"
proof -
  let ?w = "example_env\<lparr>faults := refuse_tasks_of ''s3''\<rparr>"
  let ?s = "example_row ''s3'' ''2024-01-01'' ''2024-01-01T10:00:00''"
  have h: "faults ?w SelectSessions = None" "?s \<in> set (sessions_table ?w)"
    "faults ?w (SelectTasks (row_id ?s)) = Some (Rejected (PostgrestError ''timeout''))"
    "Rejected (PostgrestError ''timeout'') \<noteq> NoData"
    by (simp_all add: refuse_tasks_of_def example_env_def example_row_def)
  have e: "fst (fetchSessionsWithTasks ?w) =
        Inl (Error ''fetchSessionsWithTasks failed: Failed to fetch tasks for session s3: timeout'')"
    by code_simp
  from h e
    fetchSessionsWithTasks_fails_whole
      [where w = ?w and s = ?s and f = "Rejected (PostgrestError ''timeout'')"]
  show ?thesis by blast
qed

subsection \<open>Creating a session with its tasks\<close>

lemma insert_session_ok:
  "faults w (InsertSession d) = None \<Longrightarrow>
     insert_session d w =
       (Inr (Response (Some (stored_session d w)) None),
        (send (InsertSession d) w)
          \<lparr> sessions_table := sessions_table w @ [stored_session d w], serial := Suc (serial w) \<rparr>)"
  by (simp add: insert_session_def)

lemma insert_session_fault:
  "faults w (InsertSession d) = Some f \<Longrightarrow>
     insert_session d w = faulty f (send (InsertSession d) w)"
  by (simp add: insert_session_def)

lemma insert_tasks_fault:
  "faults w (InsertTasks ts) = Some f \<Longrightarrow> insert_tasks ts w = faulty f (send (InsertTasks ts) w)"
  by (simp add: insert_tasks_def)

lemma row_id_stored_session [simp]:
  "row_id (stored_session d w) = new_id w (serial w)"
  "created_at (stored_session d w) = clock w (serial w)"
  by (simp_all add: stored_session_def)

lemma session_id_stamp [simp]: "session_id (stamp sid t) = sid"
  by (simp add: stamp_def)

lemma create_session_fault:
  assumes "faults w (InsertSession d) = Some f"
  shows "(\<exists>m. fst (createSessionWithTasks d ts w) = Inl (Error (''createSessionWithTasks failed: '' @ m)))
         \<and> snd (createSessionWithTasks d ts w) = send (InsertSession d) w"
  using assms
  by (cases f)
     (simp_all add: createSessionWithTasks_def createSessionWithTasks_try_def insert_session_fault
        faulty_def)

lemma create_session_ok_requests:
  assumes "faults w (InsertSession d) = None"
  shows "requests (snd (createSessionWithTasks d ts w)) =
           requests w @ InsertSession d #
             (if ts = [] then [] else [InsertTasks (map (stamp (new_id w (serial w))) ts)])
         \<and> set (sessions_table w @ [stored_session d w])
             \<subseteq> set (sessions_table (snd (createSessionWithTasks d ts w)))"
proof -
  let ?w1 = "(send (InsertSession d) w)
          \<lparr> sessions_table := sessions_table w @ [stored_session d w], serial := Suc (serial w) \<rparr>"
  let ?ti = "map (stamp (new_id w (serial w))) ts"
  show ?thesis
  proof (cases "ts = []")
    case True
    with assms show ?thesis
      by (simp add: createSessionWithTasks_def createSessionWithTasks_try_def insert_session_ok)
  next
    case False
    have env: "snd (insert_tasks ?ti ?w1) =
       (case faults w (InsertTasks ?ti) of
          Some f \<Rightarrow> send (InsertTasks ?ti) ?w1
        | None \<Rightarrow> (send (InsertTasks ?ti) ?w1)
             \<lparr> session_tasks_table :=
                 session_tasks_table ?w1 @ map (stored_task ?w1) (enumerate 0 ?ti),
               serial := serial ?w1 + length ?ti \<rparr>)"
      by (simp add: insert_tasks_def split: option.splits)
    have "snd (createSessionWithTasks d ts w) = snd (insert_tasks ?ti ?w1)"
      using assms False
      by (cases "insert_tasks ?ti ?w1"; cases "fst (insert_tasks ?ti ?w1)")
         (auto simp: createSessionWithTasks_def createSessionWithTasks_try_def insert_session_ok
               split: response.splits option.splits)
    with env False show ?thesis
      by (auto split: option.splits)
  qed
qed

lemma create_tasks_rejected:
  assumes "faults w (InsertSession d) = None" and "ts \<noteq> []"
    and "faults w (InsertTasks (map (stamp (new_id w (serial w))) ts)) = Some (Rejected pe)"
  shows "fst (createSessionWithTasks d ts w) =
           Inl (Error (''createSessionWithTasks failed: Failed to create tasks: '' @ pg_message pe))
         \<and> sessions_table (snd (createSessionWithTasks d ts w)) = sessions_table w @ [stored_session d w]
         \<and> session_tasks_table (snd (createSessionWithTasks d ts w)) = session_tasks_table w"
  using assms
  by (simp add: createSessionWithTasks_def createSessionWithTasks_try_def insert_session_ok
        insert_tasks_fault faulty_def)

lemma create_tasks_thrown:
  assumes "faults w (InsertSession d) = None" and "ts \<noteq> []"
    and "faults w (InsertTasks (map (stamp (new_id w (serial w))) ts)) = Some (Thrown e)"
  shows "fst (createSessionWithTasks d ts w) =
           Inl (Error (''createSessionWithTasks failed: '' @ message e))
         \<and> sessions_table (snd (createSessionWithTasks d ts w)) = sessions_table w @ [stored_session d w]
         \<and> session_tasks_table (snd (createSessionWithTasks d ts w)) = session_tasks_table w"
  using assms
  by (simp add: createSessionWithTasks_def createSessionWithTasks_try_def insert_session_ok
        insert_tasks_fault faulty_def)

text \<open>
  C1. \<^verbatim>\<open>createSessionWithTasks\<close> inserts the session row first. When that insert does
  not succeed, the call fails, no task insert is sent and both tables are as before.
  When it succeeds, the row carries the id and \<^verbatim>\<open>created_at\<close> the server assigned,
  and the task insert (sent only if there are tasks) carries every task stamped with
  that id as its \<^verbatim>\<open>session_id\<close>. When the task insert is then refused, or throws,
  the call fails with an error whose message ends with the cause, and the session row
  inserted before stays in the table with no task: nothing is rolled back.
\<close>

theorem createSessionWithTasks_session_first_no_rollback:
  "(faults w (InsertSession d) = Some f \<longrightarrow>
      (\<exists>m. fst (createSessionWithTasks d ts w) =
              Inl (Error (''createSessionWithTasks failed: '' @ m))) \<and>
      requests (snd (createSessionWithTasks d ts w)) = requests w @ [InsertSession d] \<and>
      sessions_table (snd (createSessionWithTasks d ts w)) = sessions_table w \<and>
      session_tasks_table (snd (createSessionWithTasks d ts w)) = session_tasks_table w)
   \<and> (faults w (InsertSession d) = None \<longrightarrow>
      requests (snd (createSessionWithTasks d ts w)) =
        requests w @ InsertSession d #
          (if ts = [] then [] else [InsertTasks (map (stamp (new_id w (serial w))) ts)]) \<and>
      (\<forall>t \<in> set (map (stamp (new_id w (serial w))) ts). session_id t = new_id w (serial w)) \<and>
      stored_session d w \<in> set (sessions_table (snd (createSessionWithTasks d ts w))) \<and>
      row_id (stored_session d w) = new_id w (serial w) \<and>
      created_at (stored_session d w) = clock w (serial w))
   \<and> (faults w (InsertSession d) = None \<and> ts \<noteq> [] \<and>
      faults w (InsertTasks (map (stamp (new_id w (serial w))) ts)) = Some (Rejected pe) \<longrightarrow>
      fst (createSessionWithTasks d ts w) =
        Inl (Error (''createSessionWithTasks failed: Failed to create tasks: '' @ pg_message pe)) \<and>
      sessions_table (snd (createSessionWithTasks d ts w)) = sessions_table w @ [stored_session d w] \<and>
      session_tasks_table (snd (createSessionWithTasks d ts w)) = session_tasks_table w)
   \<and> (faults w (InsertSession d) = None \<and> ts \<noteq> [] \<and>
      faults w (InsertTasks (map (stamp (new_id w (serial w))) ts)) = Some (Thrown e) \<longrightarrow>
      fst (createSessionWithTasks d ts w) =
        Inl (Error (''createSessionWithTasks failed: '' @ message e)) \<and>
      sessions_table (snd (createSessionWithTasks d ts w)) = sessions_table w @ [stored_session d w] \<and>
      session_tasks_table (snd (createSessionWithTasks d ts w)) = session_tasks_table w)"
proof (intro conjI impI)
  assume a: "faults w (InsertSession d) = Some f"
  from create_session_fault [OF a, of ts]
  show "\<exists>m. fst (createSessionWithTasks d ts w) = Inl (Error (''createSessionWithTasks failed: '' @ m))"
    and "requests (snd (createSessionWithTasks d ts w)) = requests w @ [InsertSession d]"
    and "sessions_table (snd (createSessionWithTasks d ts w)) = sessions_table w"
    and "session_tasks_table (snd (createSessionWithTasks d ts w)) = session_tasks_table w"
    by simp_all
next
  assume a: "faults w (InsertSession d) = None"
  from create_session_ok_requests [OF a, of ts]
  show "requests (snd (createSessionWithTasks d ts w)) =
        requests w @ InsertSession d #
          (if ts = [] then [] else [InsertTasks (map (stamp (new_id w (serial w))) ts)])"
    and "stored_session d w \<in> set (sessions_table (snd (createSessionWithTasks d ts w)))"
    by auto
  show "\<forall>t \<in> set (map (stamp (new_id w (serial w))) ts). session_id t = new_id w (serial w)"
    by simp
  show "row_id (stored_session d w) = new_id w (serial w)"
    and "created_at (stored_session d w) = clock w (serial w)"
    by simp_all
next
  assume a: "faults w (InsertSession d) = None \<and> ts \<noteq> [] \<and>
      faults w (InsertTasks (map (stamp (new_id w (serial w))) ts)) = Some (Rejected pe)"
  then have *: "fst (createSessionWithTasks d ts w) =
           Inl (Error (''createSessionWithTasks failed: Failed to create tasks: '' @ pg_message pe))
         \<and> sessions_table (snd (createSessionWithTasks d ts w)) = sessions_table w @ [stored_session d w]
         \<and> session_tasks_table (snd (createSessionWithTasks d ts w)) = session_tasks_table w"
    by (intro create_tasks_rejected) simp_all
  from * show "fst (createSessionWithTasks d ts w) =
        Inl (Error (''createSessionWithTasks failed: Failed to create tasks: '' @ pg_message pe))"
    by simp
  from * show "sessions_table (snd (createSessionWithTasks d ts w)) = sessions_table w @ [stored_session d w]"
    by simp
  from * show "session_tasks_table (snd (createSessionWithTasks d ts w)) = session_tasks_table w"
    by simp
next
  assume a: "faults w (InsertSession d) = None \<and> ts \<noteq> [] \<and>
      faults w (InsertTasks (map (stamp (new_id w (serial w))) ts)) = Some (Thrown e)"
  then have *: "fst (createSessionWithTasks d ts w) =
           Inl (Error (''createSessionWithTasks failed: '' @ message e))
         \<and> sessions_table (snd (createSessionWithTasks d ts w)) = sessions_table w @ [stored_session d w]
         \<and> session_tasks_table (snd (createSessionWithTasks d ts w)) = session_tasks_table w"
    by (intro create_tasks_thrown) simp_all
  from * show "fst (createSessionWithTasks d ts w) =
        Inl (Error (''createSessionWithTasks failed: '' @ message e))"
    by simp
  from * show "sessions_table (snd (createSessionWithTasks d ts w)) = sessions_table w @ [stored_session d w]"
    by simp
  from * show "session_tasks_table (snd (createSessionWithTasks d ts w)) = session_tasks_table w"
    by simp
qed

text \<open>
  The example store refusing every task insert: the call fails and the new session
  row is in the table.
\<close>

theorem createSessionWithTasks_session_first_no_rollback_witness:
  "faults (example_env\<lparr>faults := refuse_task_inserts\<rparr>) (InsertSession example_payload) = None
   \<and> [example_taskdata] \<noteq> []
   \<and> faults (example_env\<lparr>faults := refuse_task_inserts\<rparr>)
       (InsertTasks (map (stamp (new_id (example_env\<lparr>faults := refuse_task_inserts\<rparr>)
                                   (serial (example_env\<lparr>faults := refuse_task_inserts\<rparr>))))
                         [example_taskdata]))
       = Some (Rejected (PostgrestError ''tasks refused''))
   \<and> fst (createSessionWithTasks example_payload [example_taskdata]
             (example_env\<lparr>faults := refuse_task_inserts\<rparr>)) =
       Inl (Error ''createSessionWithTasks failed: Failed to create tasks: tasks refused'')
   \<and> sessions_table (snd (createSessionWithTasks example_payload [example_taskdata]
                            (example_env\<lparr>faults := refuse_task_inserts\<rparr>))) =
       sessions_table example_env @
         [stored_session example_payload (example_env\<lparr>faults := refuse_task_inserts\<rparr>)]
   \<and> session_tasks_table (snd (createSessionWithTasks example_payload [example_taskdata]
                            (example_env\<lparr>faults := refuse_task_inserts\<rparr>))) =
       session_tasks_table example_env"
proof -
  let ?w = "example_env\<lparr>faults := refuse_task_inserts\<rparr>"
  have h1: "faults ?w (InsertSession example_payload) = None"
    by (simp add: refuse_task_inserts_def)
  have h2: "faults ?w (InsertTasks (map (stamp (new_id ?w (serial ?w))) [example_taskdata]))
              = Some (Rejected (PostgrestError ''tasks refused''))"
    by (simp add: refuse_task_inserts_def)
  from h1 h2
    createSessionWithTasks_session_first_no_rollback
      [where w = ?w and d = example_payload and ts = "[example_taskdata]"
       and pe = "PostgrestError ''tasks refused''"]
  show ?thesis by simp
qed

text \<open>
  C2. With an empty task sequence, and the store accepting the session insert,
  \<^verbatim>\<open>createSessionWithTasks\<close> succeeds for every session payload: the result has no
  tasks and carries the id and \<^verbatim>\<open>created_at\<close> of the row the server inserted (both are
  strings, never \<^verbatim>\<open>null\<close>). No task insert is sent, so an empty task sequence can
  not make the call fail.
\<close>

theorem createSessionWithTasks_no_tasks:
  assumes "faults w (InsertSession d) = None"
  shows "\<exists>r. fst (createSessionWithTasks d [] w) = Inr r \<and> tasks r = [] \<and>
              row_id r = new_id w (serial w) \<and> created_at r = clock w (serial w) \<and>
              sessions_table (snd (createSessionWithTasks d [] w)) =
                sessions_table w @ [stored_session d w] \<and>
              row_id (stored_session d w) = row_id r \<and>
              created_at (stored_session d w) = created_at r \<and>
              requests (snd (createSessionWithTasks d [] w)) = requests w @ [InsertSession d] \<and>
              session_tasks_table (snd (createSessionWithTasks d [] w)) = session_tasks_table w"
  using assms
  by (simp add: createSessionWithTasks_def createSessionWithTasks_try_def insert_session_ok
        with_tasks_def)

text \<open>
  The example store assigns the id \<^verbatim>\<open>id3\<close> to the new row.
\<close>

theorem createSessionWithTasks_no_tasks_witness:
  "faults example_env (InsertSession example_payload) = None
   \<and> fst (createSessionWithTasks example_payload [] example_env) =
       Inr (with_tasks (stored_session example_payload example_env) [])
   \<and> row_id (stored_session example_payload example_env) = ''id3''
   \<and> created_at (stored_session example_payload example_env) = ''2024-01-04T00:00:00''
   \<and> (\<exists>r. fst (createSessionWithTasks example_payload [] example_env) = Inr r \<and> tasks r = [] \<and>
              row_id r = new_id example_env (serial example_env) \<and>
              created_at r = clock example_env (serial example_env) \<and>
              sessions_table (snd (createSessionWithTasks example_payload [] example_env)) =
                sessions_table example_env @ [stored_session example_payload example_env] \<and>
              row_id (stored_session example_payload example_env) = row_id r \<and>
              created_at (stored_session example_payload example_env) = created_at r \<and>
              requests (snd (createSessionWithTasks example_payload [] example_env)) =
                requests example_env @ [InsertSession example_payload] \<and>
              session_tasks_table (snd (createSessionWithTasks example_payload [] example_env)) =
                session_tasks_table example_env)"
proof -
  have h: "faults example_env (InsertSession example_payload) = None"
    by (simp add: example_env_def)
  have e: "fst (createSessionWithTasks example_payload [] example_env) =
       Inr (with_tasks (stored_session example_payload example_env) [])"
    "row_id (stored_session example_payload example_env) = ''id3''"
    "created_at (stored_session example_payload example_env) = ''2024-01-04T00:00:00''"
    by code_simp+
  from h e createSessionWithTasks_no_tasks [OF h] show ?thesis by blast
qed

section \<open>Properties of the remote variant\<close>

lemma loadSessions_remote_signed_out:
  "auth_session w = None \<Longrightarrow> loadSessions_remote w = (Inr [], w)"
  by (simp add: loadSessions_remote_def)

lemma loadSessions_remote_total: "\<exists>loaded. fst (loadSessions_remote w) = Inr loaded"
  by (cases "fetchSessionsWithTasks w"; cases "fst (fetchSessionsWithTasks w)")
     (auto simp: loadSessions_remote_def split: option.splits)

lemma saveSessions_remote_signed_out:
  "auth_session w = None \<Longrightarrow>
     saveSessions_remote entry w =
       (Inl (Error ''Not authenticated''),
        console_error ''Failed to save session to Supabase'' (Error ''Not authenticated'') w)"
  by (simp add: saveSessions_remote_def saveSessions_try_def)

lemma entry_id_toEntry [simp]: "entry_id (toEntry s) = row_id s"
  by (simp add: toEntry_def)

text \<open>
  C5, as the code has it. With no authenticated session, \<^verbatim>\<open>saveSessions\<close> rejects
  with the error \<^verbatim>\<open>Not authenticated\<close> before any request is sent to the store, and
  \<^verbatim>\<open>handleSave\<close> shows that message and keeps the draft; \<^verbatim>\<open>loadSessions\<close> sends no
  request either, but it does not reject: it returns the empty list.
\<close>

theorem remote_unauthenticated:
  assumes "auth_session w = None"
  shows "fst (saveSessions_remote entry w) = Inl (Error ''Not authenticated'')
         \<and> requests (snd (saveSessions_remote entry w)) = requests w
         \<and> sessions_table (snd (saveSessions_remote entry w)) = sessions_table w
         \<and> session_tasks_table (snd (saveSessions_remote entry w)) = session_tasks_table w
         \<and> (validate (form a) = None \<longrightarrow>
              error (fst (handleSave_remote (a, w))) = Some ''Not authenticated'' \<and>
              form (fst (handleSave_remote (a, w))) = form a \<and>
              requests (snd (handleSave_remote (a, w))) = requests w)
         \<and> loadSessions_remote w = (Inr [], w)"
  using assms
  by (simp add: saveSessions_remote_signed_out loadSessions_remote_signed_out
        handleSave_remote_def save_error_text_def)

text \<open>
  The example store, signed out.
\<close>

theorem remote_unauthenticated_witness:
  "auth_session (example_env\<lparr>auth_session := None\<rparr>) = None
   \<and> validate (form example_app) = None
   \<and> fst (saveSessions_remote example_entry (example_env\<lparr>auth_session := None\<rparr>)) =
       Inl (Error ''Not authenticated'')
   \<and> requests (snd (saveSessions_remote example_entry (example_env\<lparr>auth_session := None\<rparr>))) =
       requests (example_env\<lparr>auth_session := None\<rparr>)
   \<and> error (fst (handleSave_remote (example_app, example_env\<lparr>auth_session := None\<rparr>))) =
       Some ''Not authenticated''
   \<and> loadSessions_remote (example_env\<lparr>auth_session := None\<rparr>) =
       (Inr [], example_env\<lparr>auth_session := None\<rparr>)"
proof -
  have h: "auth_session (example_env\<lparr>auth_session := None\<rparr>) = None" by simp
  have v: "validate (form example_app) = None"
    by (simp add: validate_def example_app_def example_entry_def)
  from h v remote_unauthenticated [OF h, where entry = example_entry and a = example_app] show ?thesis by simp
qed

text \<open>
  C5 as stated would have \<^verbatim>\<open>loadSessions\<close> reject when nobody is signed in. On the
  signed-out example store it returns the empty list.
\<close>

theorem loadSessions_remote_unauthenticated_counterexample:
  "auth_session (example_env\<lparr>auth_session := None\<rparr>) = None
   \<and> fst (loadSessions_remote (example_env\<lparr>auth_session := None\<rparr>)) = Inr []"
  by (simp add: loadSessions_remote_def)

text \<open>
  C6. The mapping between rows and entries loses exactly this. On load, every entry
  has \<^verbatim>\<open>tasksCompleted\<close> \<^verbatim>\<open>null\<close>, whatever tasks were fetched, and \<^verbatim>\<open>notes\<close> \<^verbatim>\<open>null\<close>
  becomes the empty string; the other fields are copied. On save, the row does not
  depend on \<^verbatim>\<open>tasksCompleted\<close>, and \<^verbatim>\<open>notes\<close> the empty string becomes \<^verbatim>\<open>null\<close>;
  the other fields are copied and the owner is the signed-in user. \<^verbatim>\<open>loadSessions\<close>
  applies the first mapping to every fetched row, \<^verbatim>\<open>saveSessions\<close> sends the second
  as its only request.
\<close>

theorem remote_mapping_lossy:
  "tasksCompleted (toEntry s) = Null
   \<and> toEntry (s\<lparr>tasks := ts\<rparr>) = toEntry s
   \<and> (row_notes s = None \<longrightarrow> entry_notes (toEntry s) = [])
   \<and> (\<forall>n. row_notes s = Some n \<longrightarrow> entry_notes (toEntry s) = n)
   \<and> entry_id (toEntry s) = row_id s \<and> date (toEntry s) = session_date s
   \<and> sessionType (toEntry s) = session_type s \<and> plannedMinutes (toEntry s) = planned_minutes s
   \<and> actualMinutes (toEntry s) = actual_minutes s \<and> energyAfter (toEntry s) = energy_after s
   \<and> (auth_session w \<noteq> None \<and> fst (fetchSessionsWithTasks w) = Inr rows \<longrightarrow>
        fst (loadSessions_remote w) = Inr (map toEntry rows))
   \<and> toRow (e\<lparr>tasksCompleted := t\<rparr>) uid = toRow e uid
   \<and> (entry_notes e = [] \<longrightarrow> row_notes (toRow e uid) = None)
   \<and> (entry_notes e \<noteq> [] \<longrightarrow> row_notes (toRow e uid) = Some (entry_notes e))
   \<and> session_date (toRow e uid) = date e \<and> session_type (toRow e uid) = sessionType e
   \<and> planned_minutes (toRow e uid) = plannedMinutes e
   \<and> actual_minutes (toRow e uid) = actualMinutes e
   \<and> energy_after (toRow e uid) = energyAfter e \<and> user_id (toRow e uid) = uid
   \<and> (auth_session w = Some au \<longrightarrow>
        requests (snd (saveSessions_remote e w)) =
          requests w @ [InsertSession (toRow e (auth_user_id au))])"
proof -
  have load: "auth_session w \<noteq> None \<and> fst (fetchSessionsWithTasks w) = Inr rows \<longrightarrow>
        fst (loadSessions_remote w) = Inr (map toEntry rows)"
    by (cases "fetchSessionsWithTasks w") (auto simp: loadSessions_remote_def split: option.splits)
  have save: "auth_session w = Some au \<longrightarrow>
        requests (snd (saveSessions_remote e w)) =
          requests w @ [InsertSession (toRow e (auth_user_id au))]"
  proof
    assume au: "auth_session w = Some au"
    let ?d = "toRow e (auth_user_id au)"
    have "requests (snd (createSessionWithTasks ?d [] w)) = requests w @ [InsertSession ?d]"
    proof (cases "faults w (InsertSession ?d)")
      case None
      from create_session_ok_requests [OF this, of "[]"] show ?thesis by simp
    next
      case (Some f)
      from create_session_fault [OF this, of "[]"] show ?thesis by simp
    qed
    moreover have "requests (snd (saveSessions_remote e w)) = requests (snd (createSessionWithTasks ?d [] w))"
      using au
      by (cases "createSessionWithTasks ?d [] w"; cases "fst (createSessionWithTasks ?d [] w)")
         (auto simp: saveSessions_remote_def saveSessions_try_def)
    ultimately show "requests (snd (saveSessions_remote e w)) =
          requests w @ [InsertSession ?d]"
      by simp
  qed
  show ?thesis
    using load save by (simp add: toEntry_def toRow_def split: option.splits)
qed

text \<open>
  An example row without notes and an example entry with empty notes.
\<close>

theorem remote_mapping_lossy_witness:
  "row_notes (example_row ''s1'' ''2024-01-01'' ''2024-01-01T09:00:00'') = None
   \<and> entry_notes (toEntry (with_tasks (example_row ''s1'' ''2024-01-01'' ''2024-01-01T09:00:00'')
                             [example_task ''t1'' ''s1'' (Some 2)])) = []
   \<and> tasksCompleted (toEntry (with_tasks (example_row ''s1'' ''2024-01-01'' ''2024-01-01T09:00:00'')
                             [example_task ''t1'' ''s1'' (Some 2)])) = Null
   \<and> entry_notes example_entry = []
   \<and> row_notes (toRow example_entry ''u1'') = None
   \<and> toRow (example_entry\<lparr>tasksCompleted := Num 7\<rparr>) ''u1'' = toRow example_entry ''u1''
   \<and> auth_session example_env = Some \<lparr> auth_user_id = ''u1'' \<rparr>
   \<and> requests (snd (saveSessions_remote example_entry example_env)) =
       requests example_env @ [InsertSession (toRow example_entry ''u1'')]
   \<and> fst (fetchSessionsWithTasks example_env) = Inr example_fetched
   \<and> fst (loadSessions_remote example_env) = Inr (map toEntry example_fetched)"
proof -
  let ?s = "with_tasks (example_row ''s1'' ''2024-01-01'' ''2024-01-01T09:00:00'')
                             [example_task ''t1'' ''s1'' (Some 2)]"
  have h: "row_notes ?s = None" "entry_notes example_entry = []"
    "auth_session example_env = Some \<lparr> auth_user_id = ''u1'' \<rparr>"
    "row_notes (example_row ''s1'' ''2024-01-01'' ''2024-01-01T09:00:00'') = None"
    by (simp_all add: with_tasks_def example_row_def example_entry_def example_env_def)
  have f: "fst (fetchSessionsWithTasks example_env) = Inr example_fetched"
    by code_simp
  from h f
    remote_mapping_lossy [where s = ?s and w = example_env and rows = example_fetched
      and e = example_entry and t = "Num 7" and uid = "''u1''"
      and au = "\<lparr> auth_user_id = ''u1'' \<rparr>"]
  show ?thesis by simp
qed

text \<open>
  C9. A draft whose \<^verbatim>\<open>actualMinutes\<close> is unset (\<^verbatim>\<open>undefined\<close>, \<^verbatim>\<open>null\<close>) or \<^verbatim>\<open>NaN\<close>
  is rejected by \<^verbatim>\<open>handleSave\<close>, in the remote and in the local variant, with the
  message of the first rule that fails, the rules taken in the order
  \<^verbatim>\<open>sessionType\<close>, \<^verbatim>\<open>energyAfter\<close>, \<^verbatim>\<open>actualMinutes\<close>. Nothing else changes: no
  request is sent, nothing is written to storage, nothing is logged. An emptied
  \<^verbatim>\<open>actualMinutes\<close> input puts \<^verbatim>\<open>NaN\<close> into the draft.
\<close>

theorem handleSave_rejects_unset_minutes:
  assumes "actualMinutes f = Undefined \<or> actualMinutes f = Null \<or> actualMinutes f = NaN"
  shows "validate f = Some (if sessionType f = [] then ''Session type is required''
                           else if energyAfter f = [] then ''Energy after is required''
                           else ''Actual minutes is required'')
         \<and> (form a = f \<longrightarrow>
              handleSave_remote (a, w) = (a\<lparr>error := validate f\<rparr>, w))
         \<and> (form_l b = f \<longrightarrow>
              handleSave_local (b, w) = (b\<lparr>error_l := validate f\<rparr>, w))
         \<and> actualMinutes (handleInputChange toNumber ''actualMinutes'' [] prev) = NaN"
proof -
  from assms have v: "validate f = Some (if sessionType f = [] then ''Session type is required''
                           else if energyAfter f = [] then ''Energy after is required''
                           else ''Actual minutes is required'')"
    by (auto simp: validate_def)
  then show ?thesis
    by (auto simp: handleSave_remote_def handleSave_local_def handleInputChange_def)
qed

text \<open>
  The example draft with \<^verbatim>\<open>actualMinutes\<close> \<^verbatim>\<open>NaN\<close>.
\<close>

theorem handleSave_rejects_unset_minutes_witness:
  "actualMinutes (example_entry\<lparr>actualMinutes := NaN\<rparr>) = NaN
   \<and> validate (example_entry\<lparr>actualMinutes := NaN\<rparr>) = Some ''Actual minutes is required''
   \<and> handleSave_remote (example_app\<lparr>form := example_entry\<lparr>actualMinutes := NaN\<rparr>\<rparr>, example_env) =
       (example_app\<lparr>form := example_entry\<lparr>actualMinutes := NaN\<rparr>,
                     error := Some ''Actual minutes is required''\<rparr>, example_env)
   \<and> handleSave_local (example_app_local\<lparr>form_l := example_entry\<lparr>actualMinutes := NaN\<rparr>\<rparr>, example_env) =
       (example_app_local\<lparr>form_l := example_entry\<lparr>actualMinutes := NaN\<rparr>,
                           error_l := Some ''Actual minutes is required''\<rparr>, example_env)"
proof -
  let ?f = "example_entry\<lparr>actualMinutes := NaN\<rparr>"
  have h: "actualMinutes ?f = Undefined \<or> actualMinutes ?f = Null \<or> actualMinutes ?f = NaN"
    by simp
  have s: "sessionType ?f \<noteq> []" "energyAfter ?f \<noteq> []"
    by (simp_all add: example_entry_def)
  from s handleSave_rejects_unset_minutes [OF h, where a = "example_app\<lparr>form := ?f\<rparr>"
      and w = example_env and b = "example_app_local\<lparr>form_l := ?f\<rparr>"]
  show ?thesis by simp
qed

subsection \<open>Deleting\<close>

lemma delete_session_fault:
  "faults w (DeleteSession sid) = Some f \<Longrightarrow>
     delete_session sid w = faulty f (send (DeleteSession sid) w)"
  by (simp add: delete_session_def)

lemma handleDelete_remote_not_thrown:
  assumes "\<forall>e. faults w (DeleteSession sid) \<noteq> Some (Thrown e)"
  shows "\<exists>loaded. fst (loadSessions_remote (snd (delete_session sid w))) = Inr loaded \<and>
           fst (handleDelete_remote sid (a, w)) = a\<lparr>sessions := loaded\<rparr>"
proof -
  obtain loaded where l: "fst (loadSessions_remote (snd (delete_session sid w))) = Inr loaded"
    using loadSessions_remote_total by blast
  have "\<exists>resp. fst (delete_session sid w) = Inr resp"
  proof (cases "faults w (DeleteSession sid)")
    case None
    then show ?thesis by (simp add: delete_session_def)
  next
    case (Some f)
    with assms show ?thesis
      by (cases f) (simp_all add: delete_session_def faulty_def)
  qed
  then obtain resp where "fst (delete_session sid w) = Inr resp" by blast
  with l have "fst (handleDelete_remote sid (a, w)) = a\<lparr>sessions := loaded\<rparr>"
    by (cases "delete_session sid w"; cases "loadSessions_remote (snd (delete_session sid w))")
       (auto simp: handleDelete_remote_def)
  with l show ?thesis by blast
qed

lemma handleDelete_remote_error: "error (fst (handleDelete_remote sid (a, w))) = error a"
proof (cases "\<exists>e. faults w (DeleteSession sid) = Some (Thrown e)")
  case True
  then show ?thesis
    by (auto simp: handleDelete_remote_def delete_session_fault faulty_def)
next
  case False
  then have "\<forall>e. faults w (DeleteSession sid) \<noteq> Some (Thrown e)" by simp
  from handleDelete_remote_not_thrown [OF this, of a] show ?thesis by auto
qed

lemma handleDelete_remote_rejected_keeps:
  assumes rej: "faults w (DeleteSession sid) = Some (Rejected pe)"
    and auth: "auth_session w \<noteq> None"
    and ok: "faults w SelectSessions = None"
      "\<forall>s \<in> set (sessions_table w). faults w (SelectTasks (row_id s)) = None"
    and r: "r \<in> set (sessions_table w)" "row_id r = sid"
  shows "sid \<in> set (map entry_id (sessions (fst (handleDelete_remote sid (a, w)))))"
proof -
  let ?w1 = "send (DeleteSession sid) w"
  have d: "delete_session sid w = (Inr (Response None (Some pe)), ?w1)"
    using rej by (simp add: delete_session_fault faulty_def)
  have "faults ?w1 SelectSessions = None"
    "\<forall>s \<in> set (sessions_table ?w1). faults ?w1 (SelectTasks (row_id s)) = None"
    using ok by simp_all
  from fetchSessionsWithTasks_ok [OF this] obtain rs where
    rs: "fst (fetchSessionsWithTasks ?w1) = Inr rs"
      "map row_id rs = map row_id (order_by sessions_desc (sessions_table w))"
    by auto
  have "fst (loadSessions_remote ?w1) = Inr (map toEntry rs)"
    using rs(1) auth
    by (cases "fetchSessionsWithTasks ?w1") (auto simp: loadSessions_remote_def)
  then have "sessions (fst (handleDelete_remote sid (a, w))) = map toEntry rs"
    using d by (cases "loadSessions_remote ?w1") (auto simp: handleDelete_remote_def)
  moreover have "sid \<in> set (map row_id rs)"
    using rs(2) r by (auto simp: set_order_by)
  ultimately show ?thesis by (auto simp: comp_def)
qed

text \<open>
  C10. \<^verbatim>\<open>handleDelete\<close> never shows a failure: the error cell of the component is
  what it was. Unless the delete call throws, the list is reloaded whatever the
  response says. A refused delete leaves the table as it is, so the entry is still
  in the reloaded list (when the reload itself succeeds). When the delete call
  throws, the exception is logged to the console and nothing else happens.
\<close>

theorem handleDelete_remote_silent:
  "error (fst (handleDelete_remote sid (a, w))) = error a
   \<and> ((\<forall>e. faults w (DeleteSession sid) \<noteq> Some (Thrown e)) \<longrightarrow>
        (\<exists>loaded. fst (loadSessions_remote (snd (delete_session sid w))) = Inr loaded \<and>
                  fst (handleDelete_remote sid (a, w)) = a\<lparr>sessions := loaded\<rparr>))
   \<and> (faults w (DeleteSession sid) = Some (Rejected pe) \<longrightarrow>
        sessions_table (snd (delete_session sid w)) = sessions_table w)
   \<and> (faults w (DeleteSession sid) = Some (Rejected pe) \<and> auth_session w \<noteq> None \<and>
      faults w SelectSessions = None \<and>
      (\<forall>s \<in> set (sessions_table w). faults w (SelectTasks (row_id s)) = None) \<and>
      r \<in> set (sessions_table w) \<and> row_id r = sid \<longrightarrow>
        sid \<in> set (map entry_id (sessions (fst (handleDelete_remote sid (a, w))))))
   \<and> (faults w (DeleteSession sid) = Some (Thrown e) \<longrightarrow>
        handleDelete_remote sid (a, w) =
          (a, console_error ''Failed to delete session'' e (send (DeleteSession sid) w)))"
proof (intro conjI impI)
  show "error (fst (handleDelete_remote sid (a, w))) = error a"
    by (rule handleDelete_remote_error)
next
  assume "\<forall>e. faults w (DeleteSession sid) \<noteq> Some (Thrown e)"
  then show "\<exists>loaded. fst (loadSessions_remote (snd (delete_session sid w))) = Inr loaded \<and>
                  fst (handleDelete_remote sid (a, w)) = a\<lparr>sessions := loaded\<rparr>"
    by (rule handleDelete_remote_not_thrown)
next
  assume "faults w (DeleteSession sid) = Some (Rejected pe)"
  then show "sessions_table (snd (delete_session sid w)) = sessions_table w"
    by (simp add: delete_session_fault)
next
  assume "faults w (DeleteSession sid) = Some (Rejected pe) \<and> auth_session w \<noteq> None \<and>
      faults w SelectSessions = None \<and>
      (\<forall>s \<in> set (sessions_table w). faults w (SelectTasks (row_id s)) = None) \<and>
      r \<in> set (sessions_table w) \<and> row_id r = sid"
  then show "sid \<in> set (map entry_id (sessions (fst (handleDelete_remote sid (a, w)))))"
    using handleDelete_remote_rejected_keeps by blast
next
  assume "faults w (DeleteSession sid) = Some (Thrown e)"
  then show "handleDelete_remote sid (a, w) =
          (a, console_error ''Failed to delete session'' e (send (DeleteSession sid) w))"
    by (simp add: handleDelete_remote_def delete_session_fault faulty_def)
qed

text \<open>
  The example store refusing every delete: session \<^verbatim>\<open>s2\<close> is still listed and no
  error is shown.
\<close>

theorem handleDelete_remote_silent_witness:
  "faults (example_env\<lparr>faults := refuse_delete\<rparr>) (DeleteSession ''s2'') =
     Some (Rejected (PostgrestError ''denied''))
   \<and> auth_session (example_env\<lparr>faults := refuse_delete\<rparr>) \<noteq> None
   \<and> faults (example_env\<lparr>faults := refuse_delete\<rparr>) SelectSessions = None
   \<and> list_all (\<lambda>s. faults (example_env\<lparr>faults := refuse_delete\<rparr>) (SelectTasks (row_id s)) = None)
        (sessions_table (example_env\<lparr>faults := refuse_delete\<rparr>))
   \<and> example_row ''s2'' ''2024-01-03'' ''2024-01-03T08:00:00''
        \<in> set (sessions_table (example_env\<lparr>faults := refuse_delete\<rparr>))
   \<and> row_id (example_row ''s2'' ''2024-01-03'' ''2024-01-03T08:00:00'') = ''s2''
   \<and> ''s2'' \<in> set (map entry_id (sessions (fst (handleDelete_remote ''s2''
                      (example_app, example_env\<lparr>faults := refuse_delete\<rparr>)))))
   \<and> error (fst (handleDelete_remote ''s2''
                      (example_app, example_env\<lparr>faults := refuse_delete\<rparr>))) = error example_app
   \<and> error example_app = None"
proof -
  let ?w = "example_env\<lparr>faults := refuse_delete\<rparr>"
  let ?r = "example_row ''s2'' ''2024-01-03'' ''2024-01-03T08:00:00''"
  have h: "faults ?w (DeleteSession ''s2'') = Some (Rejected (PostgrestError ''denied''))"
    "auth_session ?w \<noteq> None" "faults ?w SelectSessions = None"
    "\<forall>s \<in> set (sessions_table ?w). faults ?w (SelectTasks (row_id s)) = None"
    "?r \<in> set (sessions_table ?w)" "row_id ?r = ''s2''" "error example_app = None"
    by (simp_all add: refuse_delete_def example_env_def example_row_def example_app_def)
  from h
    handleDelete_remote_silent [where sid = "''s2''" and a = example_app and w = ?w
      and pe = "PostgrestError ''denied''" and r = ?r]
  show ?thesis unfolding list_all_iff by blast
qed

section \<open>Properties of the JSON parser\<close>

subsection \<open>Every parser consumes text\<close>

lemma length_skip_ws: "length (skip_ws s) \<le> length s"
  by (simp add: skip_ws_def length_dropWhile_le)

lemma skip_ws_Cons_length: "skip_ws s = c # cs \<Longrightarrow> length cs < length s"
  using length_skip_ws [of s] by simp

lemma cons_char_Some: "cons_char c p = Some (k, r) \<Longrightarrow> \<exists>k'. p = Some (k', r)"
  by (cases p) (auto simp: cons_char_def)

lemma parse_chars_shorter: "parse_chars s = Some (k, r) \<Longrightarrow> length r < length s"
proof (induction s arbitrary: k rule: parse_chars.induct)
  case 1
  then show ?case by simp
next
  case (2 c cs)
  show ?case
  proof (cases "c = dquote")
    case True
    with "2.prems" show ?thesis by simp
  next
    case nq: False
    show ?thesis
    proof (cases "c = backslash")
      case False
      with nq "2.prems" have lt: "\<not> (of_char c :: nat) < 32" and "cons_char c (parse_chars cs) = Some (k, r)"
        by (auto split: if_splits)
      then obtain k' where "parse_chars cs = Some (k', r)" using cons_char_Some by blast
      from "2.IH"(3) [OF nq False lt this] show ?thesis by simp
    next
      case True
      with nq "2.prems" obtain e cs' where cs: "cs = e # cs'" by (cases cs) auto
      show ?thesis
      proof (cases "e = CHR ''u''")
        case False
        with nq True cs "2.prems" obtain ch where u: "unescape e = Some ch"
          and "cons_char ch (parse_chars cs') = Some (k, r)"
          by (auto split: option.splits)
        then obtain k' where "parse_chars cs' = Some (k', r)" using cons_char_Some by blast
        from "2.IH"(2) [OF nq True cs False u this] cs show ?thesis by simp
      next
        case u: True
        with nq True cs "2.prems" obtain a b x y rest n uu where
          cs': "cs' = a # b # x # y # rest" and h: "hex4 [a, b, x, y] = Some (n, uu)"
          and n: "n < 256" and "cons_char (char_of n) (parse_chars rest) = Some (k, r)"
          by (auto split: list.splits option.splits if_splits)
        then obtain k' where "parse_chars rest = Some (k', r)" using cons_char_Some by blast
        from "2.IH"(1) [OF nq True cs u cs' refl refl refl h refl n this] cs cs' show ?thesis by simp
      qed
    qed
  qed
qed

lemma frac_part_shorter: "frac_part s = Some (f, r) \<Longrightarrow> length r \<le> length s"
  by (auto simp: frac_part_def length_dropWhile_le le_SucI split: list.splits if_splits)

lemma exp_part_shorter: "exp_part s = Some (f, r) \<Longrightarrow> length r \<le> length s"
proof -
  assume a: "exp_part s = Some (f, r)"
  show ?thesis
  proof (cases s)
    case Nil
    with a show ?thesis by (simp add: exp_part_def)
  next
    case (Cons c cs)
    show ?thesis
    proof (cases "c = CHR ''e'' \<or> c = CHR ''E''")
      case False
      with a Cons show ?thesis by (simp add: exp_part_def)
    next
      case True
      define sgn where "sgn = (case cs of
                          [] \<Rightarrow> []
                        | d # ds \<Rightarrow> if d = CHR ''+'' \<or> d = CHR ''-'' then [d] else [])"
      have "exp_part s =
              (if takeWhile is_digit (drop (length sgn) cs) = [] then None
               else Some (c # sgn @ takeWhile is_digit (drop (length sgn) cs),
                          dropWhile is_digit (drop (length sgn) cs)))"
        using True Cons by (simp add: exp_part_def Let_def sgn_def)
      with a have "r = dropWhile is_digit (drop (length sgn) cs)"
        by (cases "takeWhile is_digit (drop (length sgn) cs) = []") simp_all
      moreover have "length (dropWhile is_digit (drop (length sgn) cs)) \<le> length cs"
        using length_dropWhile_le [of is_digit "drop (length sgn) cs"] by simp
      ultimately show ?thesis using Cons by simp
    qed
  qed
qed

lemma parse_number_shorter: "parse_number s = Some (v, r) \<Longrightarrow> length r < length s"
proof -
  assume a: "parse_number s = Some (v, r)"
  define neg where "neg = (case s of [] \<Rightarrow> False | c # cs \<Rightarrow> c = CHR ''-'')"
  define s1 where "s1 = (if neg then tl s else s)"
  define ds where "ds = (case s1 of [] \<Rightarrow> [] | c # cs \<Rightarrow> if c = CHR ''0'' then [c] else takeWhile is_digit s1)"
  have eq: "parse_number s =
      (if ds = [] then None
       else
         (case frac_part (drop (length ds) s1) of
            None \<Rightarrow> None
          | Some (fr, r1) \<Rightarrow>
              (case exp_part r1 of
                 None \<Rightarrow> None
               | Some (ex, r2) \<Rightarrow>
                   if fr = [] \<and> ex = [] then
                     Some (Number (Num (if neg then - int (digits_val ds)
                                        else int (digits_val ds))), r2)
                   else Some (Decimal ((if neg then ''-'' else []) @ ds @ fr @ ex), r2))))"
    by (simp only: parse_number_def Let_def neg_def s1_def ds_def)
  from a eq have ne: "ds \<noteq> []"
    by (cases "ds = []") simp_all
  from a ne obtain fr r1 ex where f: "frac_part (drop (length ds) s1) = Some (fr, r1)"
    and e: "exp_part r1 = Some (ex, r)"
    unfolding eq by (auto split: option.splits if_splits)
  have "length ds \<le> length s1"
    by (auto simp: ds_def length_takeWhile_le split: list.splits)
  with ne have "length (drop (length ds) s1) < length s1" by (cases ds) auto
  moreover have "length s1 \<le> length s" by (simp add: s1_def)
  ultimately show ?thesis
    using frac_part_shorter [OF f] exp_part_shorter [OF e] by simp
qed

lemma literal_shorter: "literal w v s = Some (v', r) \<Longrightarrow> length r \<le> length s"
  by (auto simp: literal_def split: if_splits)

subsection \<open>The bound on nesting is never what decides\<close>

text \<open>
  A result obtained with some bound \<open>n\<close> is obtained with every bound from the number
  of characters read on; so the result of \<^verbatim>\<open>JSON.parse\<close>, which takes the length of
  the text as the bound, does not depend on it.
\<close>

lemma parse_value_step:
  assumes E: "\<And>s vs r. parse_elements n s = Some (vs, r) \<Longrightarrow>
                length r < length s \<and> (\<forall>m. length s - length r \<le> m \<longrightarrow> parse_elements m s = Some (vs, r))"
    and M: "\<And>acc s v r. parse_members n acc s = Some (v, r) \<Longrightarrow>
                length r < length s \<and> (\<forall>m. length s - length r \<le> m \<longrightarrow> parse_members m acc s = Some (v, r))"
    and pv: "parse_value (Suc n) s = Some (v, r)"
  shows "length r < length s \<and> (\<forall>m. length s - length r \<le> m \<longrightarrow> parse_value m s = Some (v, r))"
proof -
  from pv obtain c cs where sk: "skip_ws s = c # cs"
    by (cases "skip_ws s") (simp_all add: parse_value.simps)
  have lcs: "length cs < length s" by (rule skip_ws_Cons_length [OF sk])
  have suc: "\<exists>m'. m = Suc m'" if "length r < length s" "length s - length r \<le> m" for m
    using that by (cases m) auto
  consider (arr) d ds where "c = CHR ''[''" "skip_ws cs = d # ds" "d \<noteq> CHR '']''"
    | (obj) d ds where "c \<noteq> CHR ''[''" "c = CHR ''{''" "skip_ws cs = d # ds" "d \<noteq> CHR ''}''"
    | (flat) "\<forall>k. parse_value (Suc k) s = parse_value (Suc n) s"
  proof (cases "c = CHR ''[''")
    case True
    show ?thesis
    proof (cases "skip_ws cs")
      case Nil
      with sk True pv show ?thesis by (simp add: parse_value.simps)
    next
      case (Cons d ds)
      show ?thesis
      proof (cases "d = CHR '']''")
        case False
        with True Cons show ?thesis by (rule arr)
      next
        case cl: True
        have "\<forall>k. parse_value (Suc k) s = parse_value (Suc n) s"
          using sk True Cons cl by (simp add: parse_value.simps)
        then show ?thesis by (rule flat)
      qed
    qed
  next
    case nb: False
    show ?thesis
    proof (cases "c = CHR ''{''")
      case True
      show ?thesis
      proof (cases "skip_ws cs")
        case Nil
        with sk nb True pv show ?thesis by (simp add: parse_value.simps)
      next
        case (Cons d ds)
        show ?thesis
        proof (cases "d = CHR ''}''")
          case False
          with nb True Cons show ?thesis by (rule obj)
        next
          case cl: True
          have "\<forall>k. parse_value (Suc k) s = parse_value (Suc n) s"
            using sk nb True Cons cl by (simp add: parse_value.simps)
          then show ?thesis by (rule flat)
        qed
      qed
    next
      case False
      have "\<forall>k. parse_value (Suc k) s = parse_value (Suc n) s"
        using sk nb False by (simp add: parse_value.simps)
      then show ?thesis by (rule flat)
    qed
  qed
  then show ?thesis
  proof cases
    case arr
    from pv sk arr obtain vs where pe: "parse_elements n (d # ds) = Some (vs, r)" and v: "v = Array vs"
      by (auto simp: parse_value.simps split: option.splits)
    from E [OF pe] have l: "length r < length (d # ds)"
      and en: "\<forall>m. length (d # ds) - length r \<le> m \<longrightarrow> parse_elements m (d # ds) = Some (vs, r)"
      by blast+
    have ld: "length (d # ds) \<le> length cs" using length_skip_ws [of cs] arr(2) by simp
    have lr: "length r < length s" using l ld lcs by simp
    moreover have "parse_value m s = Some (v, r)" if "length s - length r \<le> m" for m
    proof -
      from suc [OF lr that] obtain m' where m: "m = Suc m'" by blast
      with that l ld lcs have "length (d # ds) - length r \<le> m'" by simp
      with en have "parse_elements m' (d # ds) = Some (vs, r)" by blast
      with sk arr v m show ?thesis by (simp add: parse_value.simps)
    qed
    ultimately show ?thesis by blast
  next
    case obj
    from pv sk obj have pm: "parse_members n [] (d # ds) = Some (v, r)"
      by (simp add: parse_value.simps)
    from M [OF pm] have l: "length r < length (d # ds)"
      and en: "\<forall>m. length (d # ds) - length r \<le> m \<longrightarrow> parse_members m [] (d # ds) = Some (v, r)"
      by blast+
    have ld: "length (d # ds) \<le> length cs" using length_skip_ws [of cs] obj(3) by simp
    have lr: "length r < length s" using l ld lcs by simp
    moreover have "parse_value m s = Some (v, r)" if "length s - length r \<le> m" for m
    proof -
      from suc [OF lr that] obtain m' where m: "m = Suc m'" by blast
      with that l ld lcs have "length (d # ds) - length r \<le> m'" by simp
      with en have "parse_members m' [] (d # ds) = Some (v, r)" by blast
      with sk obj m show ?thesis by (simp add: parse_value.simps)
    qed
    ultimately show ?thesis by blast
  next
    case flat
    have lr: "length r < length s"
    proof (cases "c = CHR ''[''")
      case True
      with pv sk obtain d ds where "skip_ws cs = d # ds" and "length r \<le> length ds"
      proof (cases "skip_ws cs")
        case Nil
        with True pv sk show ?thesis by (simp add: parse_value.simps)
      next
        case (Cons d ds)
        show ?thesis
        proof (cases "d = CHR '']''")
          case cl: True
          with True pv sk Cons have "r = ds" by (simp add: parse_value.simps)
          with Cons that show ?thesis by simp
        next
          case False
          with True pv sk Cons obtain vs where "parse_elements n (d # ds) = Some (vs, r)"
            by (auto simp: parse_value.simps split: option.splits)
          from E [OF this] have "length r \<le> length ds" by simp
          with Cons that show ?thesis by simp
        qed
      qed
      then show ?thesis using skip_ws_Cons_length [of cs d ds] lcs by simp
    next
      case nb: False
      show ?thesis
      proof (cases "c = CHR ''{''")
        case True
        with nb pv sk obtain d ds where "skip_ws cs = d # ds" and "length r \<le> length ds"
        proof (cases "skip_ws cs")
          case Nil
          with nb True pv sk show ?thesis by (simp add: parse_value.simps)
        next
          case (Cons d ds)
          show ?thesis
          proof (cases "d = CHR ''}''")
            case cl: True
            with nb True pv sk Cons have "r = ds" by (simp add: parse_value.simps)
            with Cons that show ?thesis by simp
          next
            case False
            with nb True pv sk Cons have "parse_members n [] (d # ds) = Some (v, r)"
              by (simp add: parse_value.simps)
            from M [OF this] have "length r \<le> length ds" by simp
            with Cons that show ?thesis by simp
          qed
        qed
        then show ?thesis using skip_ws_Cons_length [of cs d ds] lcs by simp
      next
        case no: False
        show ?thesis
        proof (cases "c = dquote")
          case True
          with nb no pv sk obtain str where "parse_chars cs = Some (str, r)"
            by (auto simp: parse_value.simps split: option.splits)
          from parse_chars_shorter [OF this] lcs show ?thesis by simp
        next
          case nq: False
          consider (t) "c = CHR ''t''" | (f) "c \<noteq> CHR ''t''" "c = CHR ''f''"
            | (n) "c \<noteq> CHR ''t''" "c \<noteq> CHR ''f''" "c = CHR ''n''"
            | (num) "c \<noteq> CHR ''t''" "c \<noteq> CHR ''f''" "c \<noteq> CHR ''n''"
            by blast
          then show ?thesis
          proof cases
            case t
            with nb no nq pv sk have "literal ''rue'' (Boolean True) cs = Some (v, r)"
              by (simp add: parse_value.simps)
            from literal_shorter [OF this] lcs show ?thesis by simp
          next
            case f
            with nb no nq pv sk have "literal ''alse'' (Boolean False) cs = Some (v, r)"
              by (simp add: parse_value.simps)
            from literal_shorter [OF this] lcs show ?thesis by simp
          next
            case n
            with nb no nq pv sk have "literal ''ull'' (Number Null) cs = Some (v, r)"
              by (simp add: parse_value.simps)
            from literal_shorter [OF this] lcs show ?thesis by simp
          next
            case num
            with nb no nq pv sk have "parse_number (c # cs) = Some (v, r)"
              by (simp add: parse_value.simps)
            from parse_number_shorter [OF this] length_skip_ws [of s] sk show ?thesis by simp
          qed
        qed
      qed
    qed
    moreover have "parse_value m s = Some (v, r)" if "length s - length r \<le> m" for m
    proof -
      from suc [OF lr that] obtain m' where m: "m = Suc m'" by blast
      with flat pv show ?thesis by simp
    qed
    ultimately show ?thesis by blast
  qed
qed

lemma parse_elements_step:
  assumes V: "\<And>s v r. parse_value n s = Some (v, r) \<Longrightarrow>
                length r < length s \<and> (\<forall>m. length s - length r \<le> m \<longrightarrow> parse_value m s = Some (v, r))"
    and E: "\<And>s vs r. parse_elements n s = Some (vs, r) \<Longrightarrow>
                length r < length s \<and> (\<forall>m. length s - length r \<le> m \<longrightarrow> parse_elements m s = Some (vs, r))"
    and pe: "parse_elements (Suc n) s = Some (vs, r)"
  shows "length r < length s \<and> (\<forall>m. length s - length r \<le> m \<longrightarrow> parse_elements m s = Some (vs, r))"
proof -
  from pe obtain v r1 where pv: "parse_value n s = Some (v, r1)"
    by (cases "parse_value n s") (auto simp: parse_elements.simps)
  from pe pv obtain c cs where sk: "skip_ws r1 = c # cs"
    by (cases "skip_ws r1") (simp_all add: parse_elements.simps)
  from V [OF pv] have l1: "length r1 < length s"
    and vn: "\<forall>m. length s - length r1 \<le> m \<longrightarrow> parse_value m s = Some (v, r1)"
    by blast+
  have l2: "length cs < length r1" by (rule skip_ws_Cons_length [OF sk])
  have suc: "\<exists>m'. m = Suc m'" if "length r < length s" "length s - length r \<le> m" for m
    using that by (cases m) auto
  show ?thesis
  proof (cases "c = CHR '',''")
    case True
    with pe pv sk obtain vs' where pr: "parse_elements n cs = Some (vs', r)" and vs: "vs = v # vs'"
      by (auto simp: parse_elements.simps split: option.splits)
    from E [OF pr] have l3: "length r < length cs"
      and en: "\<forall>m. length cs - length r \<le> m \<longrightarrow> parse_elements m cs = Some (vs', r)"
      by blast+
    have lr: "length r < length s" using l1 l2 l3 by simp
    moreover have "parse_elements m s = Some (vs, r)" if "length s - length r \<le> m" for m
    proof -
      from suc [OF lr that] obtain m' where m: "m = Suc m'" by blast
      from that m l1 l2 l3 have "length s - length r1 \<le> m'" "length cs - length r \<le> m'"
        by simp_all
      with vn en have "parse_value m' s = Some (v, r1)" "parse_elements m' cs = Some (vs', r)"
        by blast+
      with sk True vs m show ?thesis by (simp add: parse_elements.simps)
    qed
    ultimately show ?thesis by blast
  next
    case False
    with pe pv sk have cl: "c = CHR '']''" and vs: "vs = [v]" and r: "r = cs"
      by (auto simp: parse_elements.simps split: if_splits)
    have lr: "length r < length s" using l1 l2 r by simp
    moreover have "parse_elements m s = Some (vs, r)" if "length s - length r \<le> m" for m
    proof -
      from suc [OF lr that] obtain m' where m: "m = Suc m'" by blast
      from that m l1 l2 r have "length s - length r1 \<le> m'" by simp
      with vn have "parse_value m' s = Some (v, r1)" by blast
      with sk False cl vs r m show ?thesis by (simp add: parse_elements.simps)
    qed
    ultimately show ?thesis by blast
  qed
qed

lemma parse_members_step:
  assumes V: "\<And>s v r. parse_value n s = Some (v, r) \<Longrightarrow>
                length r < length s \<and> (\<forall>m. length s - length r \<le> m \<longrightarrow> parse_value m s = Some (v, r))"
    and M: "\<And>acc s v r. parse_members n acc s = Some (v, r) \<Longrightarrow>
                length r < length s \<and> (\<forall>m. length s - length r \<le> m \<longrightarrow> parse_members m acc s = Some (v, r))"
    and pm: "parse_members (Suc n) acc s = Some (v, r)"
  shows "length r < length s \<and> (\<forall>m. length s - length r \<le> m \<longrightarrow> parse_members m acc s = Some (v, r))"
proof -
  from pm obtain q cs where sk0: "skip_ws s = q # cs"
    by (cases "skip_ws s") (simp_all add: parse_members.simps)
  from pm sk0 have q: "q = dquote"
    by (cases "q = dquote") (simp_all add: parse_members.simps)
  from pm sk0 q obtain k r0 where pc: "parse_chars cs = Some (k, r0)"
    by (cases "parse_chars cs") (auto simp: parse_members.simps)
  from pm sk0 q pc obtain c r1 where sk1: "skip_ws r0 = c # r1"
    by (cases "skip_ws r0") (simp_all add: parse_members.simps)
  from pm sk0 q pc sk1 have c: "c = CHR '':''"
    by (cases "c = CHR '':''") (simp_all add: parse_members.simps)
  from pm sk0 q pc sk1 c obtain x r2 where pv: "parse_value n r1 = Some (x, r2)"
    by (cases "parse_value n r1") (auto simp: parse_members.simps)
  from pm sk0 q pc sk1 c pv obtain e r3 where sk2: "skip_ws r2 = e # r3"
    by (cases "skip_ws r2") (simp_all add: parse_members.simps)
  have head: "parse_members (Suc k') acc s =
      (case parse_value k' r1 of
         None \<Rightarrow> None
       | Some (v, r2) \<Rightarrow>
           (case skip_ws r2 of
              [] \<Rightarrow> None
            | e # r3 \<Rightarrow>
                if e = CHR '','' then parse_members k' (obj_put k v acc) r3
                else if e = CHR ''}'' then Some (Object (obj_put k v acc), r3)
                else None))" for k'
    using sk0 q pc sk1 c by (simp add: parse_members.simps)
  have l0: "length cs < length s" by (rule skip_ws_Cons_length [OF sk0])
  have l1: "length r0 < length cs" by (rule parse_chars_shorter [OF pc])
  have l2: "length r1 < length r0" by (rule skip_ws_Cons_length [OF sk1])
  from V [OF pv] have l3: "length r2 < length r1"
    and vn: "\<forall>m. length r1 - length r2 \<le> m \<longrightarrow> parse_value m r1 = Some (x, r2)"
    by blast+
  have l4: "length r3 < length r2" by (rule skip_ws_Cons_length [OF sk2])
  have suc: "\<exists>m'. m = Suc m'" if "length r < length s" "length s - length r \<le> m" for m
    using that by (cases m) auto
  show ?thesis
  proof (cases "e = CHR '',''")
    case True
    with pm pv sk2 have pr: "parse_members n (obj_put k x acc) r3 = Some (v, r)"
      unfolding head by simp
    from M [OF pr] have l5: "length r < length r3"
      and mn: "\<forall>m. length r3 - length r \<le> m \<longrightarrow> parse_members m (obj_put k x acc) r3 = Some (v, r)"
      by blast+
    have lr: "length r < length s" using l0 l1 l2 l3 l4 l5 by simp
    moreover have "parse_members m acc s = Some (v, r)" if "length s - length r \<le> m" for m
    proof -
      from suc [OF lr that] obtain m' where m: "m = Suc m'" by blast
      from that m l0 l1 l2 l3 l4 l5 have "length r1 - length r2 \<le> m'" "length r3 - length r \<le> m'"
        by simp_all
      with vn mn have "parse_value m' r1 = Some (x, r2)"
        "parse_members m' (obj_put k x acc) r3 = Some (v, r)"
        by blast+
      with sk2 True m show ?thesis unfolding m head by simp
    qed
    ultimately show ?thesis by blast
  next
    case False
    with pm pv sk2 have cl: "e = CHR ''}''" and v: "v = Object (obj_put k x acc)" and r: "r = r3"
      unfolding head by (auto split: if_splits)
    have lr: "length r < length s" using l0 l1 l2 l3 l4 r by simp
    moreover have "parse_members m acc s = Some (v, r)" if "length s - length r \<le> m" for m
    proof -
      from suc [OF lr that] obtain m' where m: "m = Suc m'" by blast
      from that m l0 l1 l2 l3 l4 r have "length r1 - length r2 \<le> m'" by simp
      with vn have "parse_value m' r1 = Some (x, r2)" by blast
      with sk2 False cl v r show ?thesis unfolding m head by simp
    qed
    ultimately show ?thesis by blast
  qed
qed

lemma parse_fuel:
  "(\<forall>s v r. parse_value n s = Some (v, r) \<longrightarrow>
      length r < length s \<and> (\<forall>m. length s - length r \<le> m \<longrightarrow> parse_value m s = Some (v, r)))
   \<and> (\<forall>s vs r. parse_elements n s = Some (vs, r) \<longrightarrow>
      length r < length s \<and> (\<forall>m. length s - length r \<le> m \<longrightarrow> parse_elements m s = Some (vs, r)))
   \<and> (\<forall>acc s v r. parse_members n acc s = Some (v, r) \<longrightarrow>
      length r < length s \<and> (\<forall>m. length s - length r \<le> m \<longrightarrow> parse_members m acc s = Some (v, r)))"
proof (induction n)
  case 0
  show ?case by (simp add: parse_value.simps parse_elements.simps parse_members.simps)
next
  case (Suc n)
  then have V: "\<And>s v r. parse_value n s = Some (v, r) \<Longrightarrow>
                length r < length s \<and> (\<forall>m. length s - length r \<le> m \<longrightarrow> parse_value m s = Some (v, r))"
    and E: "\<And>s vs r. parse_elements n s = Some (vs, r) \<Longrightarrow>
                length r < length s \<and> (\<forall>m. length s - length r \<le> m \<longrightarrow> parse_elements m s = Some (vs, r))"
    and M: "\<And>acc s v r. parse_members n acc s = Some (v, r) \<Longrightarrow>
                length r < length s \<and> (\<forall>m. length s - length r \<le> m \<longrightarrow> parse_members m acc s = Some (v, r))"
    by blast+
  show ?case
  proof (intro conjI allI impI)
    fix s v r assume "parse_value (Suc n) s = Some (v, r)"
    from parse_value_step [OF E M this]
    show "length r < length s" and "\<And>m. length s - length r \<le> m \<Longrightarrow> parse_value m s = Some (v, r)"
      by blast+
  next
    fix s vs r assume "parse_elements (Suc n) s = Some (vs, r)"
    from parse_elements_step [OF V E this]
    show "length r < length s" and "\<And>m. length s - length r \<le> m \<Longrightarrow> parse_elements m s = Some (vs, r)"
      by blast+
  next
    fix acc s v r assume "parse_members (Suc n) acc s = Some (v, r)"
    from parse_members_step [OF V M this]
    show "length r < length s" and "\<And>m. length s - length r \<le> m \<Longrightarrow> parse_members m acc s = Some (v, r)"
      by blast+
  qed
qed

text \<open>The bound on the nesting of calls never decides the result of \<^verbatim>\<open>JSON.parse\<close>.\<close>

lemma JSON_parse_any_fuel:
  assumes "parse_value n s = Some (v, r)" and "skip_ws r = []"
  shows "JSON_parse s = Inr v"
proof -
  from parse_fuel [of n] assms(1)
  have "\<forall>m. length s - length r \<le> m \<longrightarrow> parse_value m s = Some (v, r)" by blast
  then have "parse_value (Suc (length s)) s = Some (v, r)" by simp
  with assms(2) show ?thesis by (simp add: JSON_parse_def)
qed

section \<open>Properties of the local variant\<close>

subsection \<open>Numbers\<close>

lemma char_of_48: "char_of (48::nat) = CHR ''0''"
  by code_simp

lemma of_char_digit_char: "d < 10 \<Longrightarrow> (of_char (digit_char d) :: nat) = 48 + d"
  by (simp add: digit_char_def)

lemma is_digit_digit_char: "d < 10 \<Longrightarrow> is_digit (digit_char d)"
  by (simp add: is_digit_def of_char_digit_char)

lemma digit_val_digit_char: "d < 10 \<Longrightarrow> digit_val (digit_char d) = d"
  by (simp add: digit_val_def of_char_digit_char)

lemma digit_char_eq_zero: "d < 10 \<Longrightarrow> digit_char d = CHR ''0'' \<longleftrightarrow> d = 0"
proof
  assume d: "d < 10" and "digit_char d = CHR ''0''"
  then have "(of_char (digit_char d) :: nat) = of_char CHR ''0''" by simp
  with d show "d = 0" by (simp add: of_char_digit_char)
next
  assume "d = 0" then show "digit_char d = CHR ''0''" by (simp add: digit_char_def char_of_48)
qed

lemma is_digit_not_special:
  "is_digit c \<Longrightarrow> c \<noteq> CHR ''-'' \<and> c \<noteq> CHR ''.'' \<and> c \<noteq> CHR ''e'' \<and> c \<noteq> CHR ''E'' \<and>
     c \<noteq> CHR ''['' \<and> c \<noteq> CHR ''{'' \<and> c \<noteq> dquote \<and> c \<noteq> CHR ''t'' \<and> c \<noteq> CHR ''f'' \<and>
     c \<noteq> CHR ''n'' \<and> \<not> is_ws c"
  by (auto simp: is_digit_def dquote_def is_ws_def)

lemma show_nat_digits: "list_all is_digit (show_nat n)"
proof (induction n rule: show_nat.induct)
  case (1 n)
  then show ?case
    by (subst show_nat.simps) (simp add: is_digit_digit_char)
qed

lemma show_nat_not_Nil: "show_nat n \<noteq> []"
  by (subst show_nat.simps) simp

lemma digits_val_snoc: "digits_val (ds @ [c]) = 10 * digits_val ds + digit_val c"
  by (simp add: digits_val_def)

lemma digits_val_show_nat: "digits_val (show_nat n) = n"
proof (induction n rule: show_nat.induct)
  case (1 n)
  show ?case
  proof (cases "n < 10")
    case True
    then show ?thesis
      by (subst show_nat.simps) (simp add: digits_val_def digit_val_digit_char)
  next
    case False
    with 1 show ?thesis
      by (subst show_nat.simps) (simp add: digits_val_snoc digit_val_digit_char)
  qed
qed

lemma hd_show_nat: "hd (show_nat n) = CHR ''0'' \<longleftrightarrow> n = 0"
proof (induction n rule: show_nat.induct)
  case (1 n)
  show ?case
  proof (cases "n < 10")
    case True
    then show ?thesis
      by (subst show_nat.simps) (simp add: digit_char_eq_zero)
  next
    case False
    then have "n div 10 \<noteq> 0" by simp
    with 1 False show ?thesis
      by (subst show_nat.simps) (simp add: show_nat_not_Nil)
  qed
qed

lemma show_nat_0: "show_nat 0 = ''0''"
  by (subst show_nat.simps) (simp add: digit_char_def char_of_48)


lemma closes_not_digit: "closes r \<Longrightarrow> r \<noteq> [] \<Longrightarrow> \<not> is_digit (hd r)"
  by (auto simp: closes_def is_digit_def)

lemma takeWhile_digits: "list_all is_digit ds \<Longrightarrow> closes r \<Longrightarrow> takeWhile is_digit (ds @ r) = ds"
  by (cases r) (auto simp: list_all_iff takeWhile_append2 dest: closes_not_digit)

lemma frac_part_closes: "closes r \<Longrightarrow> frac_part r = Some ([], r)"
  by (cases r) (auto simp: frac_part_def closes_def)

lemma exp_part_closes: "closes r \<Longrightarrow> exp_part r = Some ([], r)"
  by (cases r) (auto simp: exp_part_def closes_def)

lemma parse_nat:
  assumes "closes r"
  shows "parse_number (show_nat n @ r) = Some (Number (Num (int n)), r)"
proof -
  obtain c cs where s: "show_nat n = c # cs" using show_nat_not_Nil by (cases "show_nat n") auto
  have dig: "list_all is_digit (c # cs)" using show_nat_digits [of n] s by simp
  then have c: "is_digit c" by simp
  then have nm: "c \<noteq> CHR ''-''" using is_digit_not_special by blast
  show ?thesis
  proof (cases "n = 0")
    case True
    then show ?thesis using assms
      by (simp add: show_nat_0 parse_number_def frac_part_closes exp_part_closes digits_val_def
            digit_val_def)
  next
    case False
    then have "c \<noteq> CHR ''0''" using hd_show_nat [of n] s by simp
    moreover have "takeWhile is_digit ((c # cs) @ r) = c # cs"
      using takeWhile_digits [OF dig assms] .
    moreover have "digits_val (c # cs) = n" using digits_val_show_nat [of n] s by simp
    ultimately show ?thesis using nm assms s
      by (simp add: parse_number_def frac_part_closes exp_part_closes)
  qed
qed

lemma parse_int:
  assumes "closes r"
  shows "parse_number (show_int i @ r) = Some (Number (Num i), r)"
proof (cases "i < 0")
  case False
  then show ?thesis using parse_nat [OF assms, of "nat i"] by (simp add: show_int_def)
next
  case True
  let ?n = "nat (- i)"
  obtain c cs where s: "show_nat ?n = c # cs" using show_nat_not_Nil by (cases "show_nat ?n") auto
  have dig: "list_all is_digit (c # cs)" using show_nat_digits [of ?n] s by simp
  have "?n \<noteq> 0" using True by simp
  then have "c \<noteq> CHR ''0''" using hd_show_nat [of ?n] s by simp
  moreover have "takeWhile is_digit ((c # cs) @ r) = c # cs"
    using takeWhile_digits [OF dig assms] .
  moreover have "digits_val (c # cs) = ?n" using digits_val_show_nat [of ?n] s by simp
  ultimately show ?thesis using True assms s
    by (simp add: show_int_def parse_number_def frac_part_closes exp_part_closes)
qed

subsection \<open>Strings\<close>

lemma hex_val_hex_digit: "d < 16 \<Longrightarrow> hex_val (hex_digit d) = Some d"
  by (auto simp: hex_val_def hex_digit_def Let_def)

lemma hex_val_0: "hex_val CHR ''0'' = Some 0"
  by (simp add: hex_val_def)

lemma hex4_control:
  "n < 32 \<Longrightarrow> hex4 [CHR ''0'', CHR ''0'', hex_digit (n div 16), hex_digit (n mod 16)] = Some (n, [])"
proof -
  assume "n < 32"
  then have "n div 16 < 16" "n mod 16 < 16" by simp_all
  then show ?thesis by (simp add: hex_val_hex_digit hex_val_0)
qed

lemma parse_chars_raw:
  "c \<noteq> dquote \<Longrightarrow> c \<noteq> backslash \<Longrightarrow> \<not> (of_char c :: nat) < 32 \<Longrightarrow>
     parse_chars (c # r) = cons_char c (parse_chars r)"
  by simp

lemma parse_chars_short:
  "unescape e = Some c \<Longrightarrow> parse_chars (backslash # e # r) = cons_char c (parse_chars r)"
proof -
  assume u: "unescape e = Some c"
  then have "e \<noteq> CHR ''u''" by (auto simp: unescape_def dquote_def backslash_def split: if_splits)
  with u show ?thesis by (simp add: dquote_def backslash_def)
qed

lemma parse_chars_control:
  assumes "(of_char c :: nat) < 32"
  shows "parse_chars (backslash # CHR ''u'' # CHR ''0'' # CHR ''0'' #
            hex_digit (of_char c div 16) # hex_digit (of_char c mod 16) # r)
         = cons_char c (parse_chars r)"
proof -
  have "backslash \<noteq> dquote" by (simp add: dquote_def backslash_def)
  moreover have "(of_char c :: nat) < 256" by simp
  ultimately show ?thesis using hex4_control [OF assms]
    by simp
qed

lemma parse_chars_escape: "parse_chars (escape_char c @ r) = cons_char c (parse_chars r)"
proof -
  consider (q) "c = dquote" | (b) "c = backslash" | (bs) "c = CHR 0x08" | (t) "c = CHR 0x09"
    | (n) "c = CHR 0x0A" | (f) "c = CHR 0x0C" | (r) "c = CHR 0x0D"
    | (ctl) "c \<noteq> dquote" "c \<noteq> backslash" "c \<noteq> CHR 0x08" "c \<noteq> CHR 0x09" "c \<noteq> CHR 0x0A"
        "c \<noteq> CHR 0x0C" "c \<noteq> CHR 0x0D" "(of_char c :: nat) < 32"
    | (raw) "c \<noteq> dquote" "c \<noteq> backslash" "\<not> (of_char c :: nat) < 32"
    by fastforce
  then show ?thesis
  proof cases
    case q
    have "unescape dquote = Some dquote" by (simp add: unescape_def)
    from parse_chars_short [OF this] q show ?thesis by (simp add: escape_char_def)
  next
    case b
    have "unescape backslash = Some backslash" by (simp add: unescape_def dquote_def backslash_def)
    from parse_chars_short [OF this] b show ?thesis
      by (simp add: escape_char_def dquote_def backslash_def)
  next
    case bs
    have "unescape CHR ''b'' = Some (CHR 0x08)" by (simp add: unescape_def dquote_def backslash_def)
    from parse_chars_short [OF this] bs show ?thesis
      by (simp add: escape_char_def dquote_def backslash_def)
  next
    case t
    have "unescape CHR ''t'' = Some (CHR 0x09)" by (simp add: unescape_def dquote_def backslash_def)
    from parse_chars_short [OF this] t show ?thesis
      by (simp add: escape_char_def dquote_def backslash_def)
  next
    case n
    have "unescape CHR ''n'' = Some (CHR 0x0A)" by (simp add: unescape_def dquote_def backslash_def)
    from parse_chars_short [OF this] n show ?thesis
      by (simp add: escape_char_def dquote_def backslash_def)
  next
    case f
    have "unescape CHR ''f'' = Some (CHR 0x0C)" by (simp add: unescape_def dquote_def backslash_def)
    from parse_chars_short [OF this] f show ?thesis
      by (simp add: escape_char_def dquote_def backslash_def)
  next
    case r
    have "unescape CHR ''r'' = Some (CHR 0x0D)" by (simp add: unescape_def dquote_def backslash_def)
    from parse_chars_short [OF this] r show ?thesis
      by (simp add: escape_char_def dquote_def backslash_def)
  next
    case ctl
    then have "escape_char c = [backslash, CHR ''u'', CHR ''0'', CHR ''0'',
         hex_digit (of_char c div 16), hex_digit (of_char c mod 16)]"
      by (simp add: escape_char_def)
    with parse_chars_control [OF ctl(8)] show ?thesis by simp
  next
    case raw
    from raw(3) have "c \<noteq> CHR 0x08" "c \<noteq> CHR 0x09" "c \<noteq> CHR 0x0A" "c \<noteq> CHR 0x0C" "c \<noteq> CHR 0x0D"
      by auto
    with raw have "escape_char c = [c]" by (simp add: escape_char_def)
    with parse_chars_raw [OF raw] show ?thesis by simp
  qed
qed

lemma parse_chars_body: "parse_chars (concat (map escape_char s) @ dquote # r) = Some (s, r)"
  by (induction s) (simp_all add: parse_chars_escape cons_char_def)

lemma skip_ws_Cons: "\<not> is_ws c \<Longrightarrow> skip_ws (c # r) = c # r"
  by (simp add: skip_ws_def)

lemma dquote_not_ws: "\<not> is_ws dquote"
  by (simp add: is_ws_def dquote_def)

lemma parse_value_string: "parse_value (Suc n) (quote s @ r) = Some (String s, r)"
proof -
  have "dquote \<noteq> CHR ''[''" "dquote \<noteq> CHR ''{''" by (simp_all add: dquote_def)
  then show ?thesis
    by (simp add: parse_value.simps quote_def skip_ws_Cons dquote_not_ws parse_chars_body)
qed

lemma parse_value_null:
  "parse_value (Suc n) (''null'' @ r) = Some (Number Null, r)"
  by (simp add: parse_value.simps skip_ws_def is_ws_def dquote_def literal_def)

lemma show_int_first:
  "\<exists>c cs. show_int i = c # cs \<and> (c = CHR ''-'' \<or> is_digit c)"
proof (cases "i < 0")
  case True
  then show ?thesis by (simp add: show_int_def)
next
  case False
  obtain c cs where s: "show_nat (nat i) = c # cs"
    using show_nat_not_Nil by (cases "show_nat (nat i)") auto
  with show_nat_digits [of "nat i"] have "is_digit c" by simp
  with s False show ?thesis by (simp add: show_int_def)
qed

subsection \<open>One step of the parser\<close>

lemma parse_value_number_start:
  assumes "c \<noteq> CHR ''[''" "c \<noteq> CHR ''{''" "c \<noteq> dquote" "c \<noteq> CHR ''t''" "c \<noteq> CHR ''f''"
    "c \<noteq> CHR ''n''" "\<not> is_ws c"
  shows "parse_value (Suc n) (c # s) = parse_number (c # s)"
proof -
  have "skip_ws (c # s) = c # s" using assms(7) by (rule skip_ws_Cons)
  then show ?thesis
    using assms(1-6) by (simp only: parse_value.simps list.case if_False)
qed

lemma parse_value_int:
  assumes "closes r"
  shows "parse_value (Suc n) (show_int i @ r) = Some (Number (Num i), r)"
proof -
  obtain c cs where s: "show_int i = c # cs" and c: "c = CHR ''-'' \<or> is_digit c"
    using show_int_first by blast
  have ns: "c \<noteq> CHR ''['' \<and> c \<noteq> CHR ''{'' \<and> c \<noteq> dquote \<and> c \<noteq> CHR ''t'' \<and> c \<noteq> CHR ''f'' \<and>
      c \<noteq> CHR ''n'' \<and> \<not> is_ws c"
  proof (cases "is_digit c")
    case True
    then show ?thesis using is_digit_not_special [of c] by blast
  next
    case False
    with c have "c = CHR ''-''" by blast
    then show ?thesis by (simp add: dquote_def is_ws_def)
  qed
  have "parse_value (Suc n) (c # cs @ r) = parse_number (c # cs @ r)"
    by (rule parse_value_number_start) (use ns in blast)+
  with parse_int [OF assms, of i] s show ?thesis by simp
qed

lemma scalar_round_trip:
  assumes "scalar v" and "closes r"
  shows "\<exists>t. JSON_stringify v = Some t \<and> parse_value (Suc n) (t @ r) = Some (v, r)"
proof (cases v)
  case (Number x)
  show ?thesis
  proof (cases x)
    case Null
    with Number show ?thesis using parse_value_null [of n r] by simp
  next
    case (Num i)
    with Number show ?thesis using parse_value_int [OF assms(2), of n i] by simp
  qed (use assms(1) Number in simp_all)
next
  case (String s)
  then show ?thesis using parse_value_string [of n s r] by simp
qed (use assms(1) in simp_all)

lemma colon_not_ws: "\<not> is_ws CHR '':''" and comma_not_ws: "\<not> is_ws CHR '',''"
  and brace_not_ws: "\<not> is_ws CHR ''}''" and bracket_not_ws: "\<not> is_ws CHR '']''"
  and obrace_not_ws: "\<not> is_ws CHR ''{''" and obracket_not_ws: "\<not> is_ws CHR ''[''"
  by (simp_all add: is_ws_def)

lemma parse_members_comma:
  assumes v: "parse_value n (t @ CHR '','' # rest) = Some (v, CHR '','' # rest)"
  shows "parse_members (Suc n) acc (quote k @ CHR '':'' # t @ CHR '','' # rest) =
           parse_members n (obj_put k v acc) rest"
proof -
  let ?body = "concat (map escape_char k) @ dquote # CHR '':'' # t @ CHR '','' # rest"
  have 1: "quote k @ CHR '':'' # t @ CHR '','' # rest = dquote # ?body"
    by (simp add: quote_def)
  have 2: "skip_ws (dquote # ?body) = dquote # ?body"
    by (rule skip_ws_Cons [OF dquote_not_ws])
  have 3: "parse_chars ?body = Some (k, CHR '':'' # t @ CHR '','' # rest)"
    by (rule parse_chars_body)
  have 4: "skip_ws (CHR '':'' # t @ CHR '','' # rest) = CHR '':'' # t @ CHR '','' # rest"
    by (rule skip_ws_Cons [OF colon_not_ws])
  have 5: "skip_ws (CHR '','' # rest) = CHR '','' # rest"
    by (rule skip_ws_Cons [OF comma_not_ws])
  show ?thesis
    unfolding 1
    by (simp only: parse_members.simps 2 3 4 5 v list.case option.case prod.case
          simp_thms if_True if_False)
qed

lemma parse_members_close:
  assumes v: "parse_value n (t @ CHR ''}'' # rest) = Some (v, CHR ''}'' # rest)"
  shows "parse_members (Suc n) acc (quote k @ CHR '':'' # t @ CHR ''}'' # rest) =
           Some (Object (obj_put k v acc), rest)"
proof -
  let ?body = "concat (map escape_char k) @ dquote # CHR '':'' # t @ CHR ''}'' # rest"
  have 1: "quote k @ CHR '':'' # t @ CHR ''}'' # rest = dquote # ?body"
    by (simp add: quote_def)
  have 2: "skip_ws (dquote # ?body) = dquote # ?body"
    by (rule skip_ws_Cons [OF dquote_not_ws])
  have 3: "parse_chars ?body = Some (k, CHR '':'' # t @ CHR ''}'' # rest)"
    by (rule parse_chars_body)
  have 4: "skip_ws (CHR '':'' # t @ CHR ''}'' # rest) = CHR '':'' # t @ CHR ''}'' # rest"
    by (rule skip_ws_Cons [OF colon_not_ws])
  have 5: "skip_ws (CHR ''}'' # rest) = CHR ''}'' # rest"
    by (rule skip_ws_Cons [OF brace_not_ws])
  have 6: "CHR ''}'' \<noteq> CHR '',''" by simp
  show ?thesis
    unfolding 1
    using 6 by (simp only: parse_members.simps 2 3 4 5 v list.case option.case prod.case
          simp_thms if_True if_False)
qed

lemma parse_elements_comma:
  assumes v: "parse_value n (t @ CHR '','' # rest) = Some (v, CHR '','' # rest)"
  shows "parse_elements (Suc n) (t @ CHR '','' # rest) =
           (case parse_elements n rest of None \<Rightarrow> None | Some (vs, r') \<Rightarrow> Some (v # vs, r'))"
proof -
  have 5: "skip_ws (CHR '','' # rest) = CHR '','' # rest"
    by (rule skip_ws_Cons [OF comma_not_ws])
  show ?thesis
    by (simp only: parse_elements.simps 5 v list.case option.case prod.case
          simp_thms if_True if_False)
qed

lemma parse_elements_close:
  assumes v: "parse_value n (t @ CHR '']'' # rest) = Some (v, CHR '']'' # rest)"
  shows "parse_elements (Suc n) (t @ CHR '']'' # rest) = Some ([v], rest)"
proof -
  have 5: "skip_ws (CHR '']'' # rest) = CHR '']'' # rest"
    by (rule skip_ws_Cons [OF bracket_not_ws])
  have 6: "CHR '']'' \<noteq> CHR '',''" by simp
  show ?thesis
    using 6 by (simp only: parse_elements.simps 5 v list.case option.case prod.case
          simp_thms if_True if_False)
qed

lemma parse_value_object:
  "parse_value (Suc n) (CHR ''{'' # dquote # s) = parse_members n [] (dquote # s)"
proof -
  have 1: "skip_ws (CHR ''{'' # dquote # s) = CHR ''{'' # dquote # s"
    by (rule skip_ws_Cons [OF obrace_not_ws])
  have 2: "skip_ws (dquote # s) = dquote # s"
    by (rule skip_ws_Cons [OF dquote_not_ws])
  have 3: "CHR ''{'' \<noteq> CHR ''[''" "dquote \<noteq> CHR ''}''" by (simp_all add: dquote_def)
  show ?thesis
    using 3 by (simp only: parse_value.simps 1 2 list.case simp_thms if_True if_False)
qed

lemma parse_value_array:
  "parse_value (Suc n) (CHR ''['' # CHR ''{'' # s) =
     (case parse_elements n (CHR ''{'' # s) of None \<Rightarrow> None | Some (vs, r) \<Rightarrow> Some (Array vs, r))"
proof -
  have 1: "skip_ws (CHR ''['' # CHR ''{'' # s) = CHR ''['' # CHR ''{'' # s"
    by (rule skip_ws_Cons [OF obracket_not_ws])
  have 2: "skip_ws (CHR ''{'' # s) = CHR ''{'' # s"
    by (rule skip_ws_Cons [OF obrace_not_ws])
  have 3: "CHR ''{'' \<noteq> CHR '']''" by simp
  show ?thesis
    using 3 by (simp only: parse_value.simps 1 2 list.case simp_thms if_True if_False)
qed

lemma parse_value_empty_array: "parse_value (Suc n) (''[]'' @ r) = Some (Array [], r)"
proof -
  have 1: "skip_ws (CHR ''['' # CHR '']'' # r) = CHR ''['' # CHR '']'' # r"
    by (rule skip_ws_Cons [OF obracket_not_ws])
  have 2: "skip_ws (CHR '']'' # r) = CHR '']'' # r"
    by (rule skip_ws_Cons [OF bracket_not_ws])
  have "parse_value (Suc n) (CHR ''['' # CHR '']'' # r) = Some (Array [], r)"
    by (simp only: parse_value.simps 1 2 list.case simp_thms if_True if_False)
  then show ?thesis by simp
qed

subsection \<open>Objects and arrays of entries\<close>

lemma closes_simps [simp]:
  "closes []" "closes (CHR '','' # r)" "closes (CHR '']'' # r)" "closes (CHR ''}'' # r)"
  by (simp_all add: closes_def)

lemma parse_members_scalars:
  "ms \<noteq> [] \<Longrightarrow> list_all (\<lambda>m. scalar (snd m)) ms \<Longrightarrow> length ms < n \<Longrightarrow>
     parse_members n acc
       (join (member_texts (map (map_prod id JSON_stringify) ms)) @ CHR ''}'' # rest) =
     Some (Object (foldl (\<lambda>a m. obj_put (fst m) (snd m) a) acc ms), rest)"
proof (induction ms arbitrary: acc n)
  case Nil
  then show ?case by simp
next
  case (Cons m ms)
  note IH = Cons.IH and prems = Cons.prems
  obtain k v where m: "m = (k, v)" by (cases m)
  from prems obtain n' where n: "n = Suc (Suc n')" and n': "length ms \<le> n'"
    by (cases n; cases "n - 1") auto
  from prems m have sc: "scalar v" by simp
  show ?case
  proof (cases ms)
    case Nil
    from scalar_round_trip [OF sc, of "CHR ''}'' # rest" n'] obtain t where
      t: "JSON_stringify v = Some t"
        "parse_value (Suc n') (t @ CHR ''}'' # rest) = Some (v, CHR ''}'' # rest)"
      by auto
    from parse_members_close [OF t(2), of acc k] t(1) m n Nil show ?thesis by simp
  next
    case (Cons m2 ms2)
    obtain k2 v2 where m2: "m2 = (k2, v2)" by (cases m2)
    from prems Cons m2 have "scalar v2" by simp
    from scalar_round_trip [OF this, of "[]" 0] obtain t2 where t2: "JSON_stringify v2 = Some t2"
      by auto
    let ?rest = "join (member_texts (map (map_prod id JSON_stringify) ms)) @ CHR ''}'' # rest"
    from scalar_round_trip [OF sc, of "CHR '','' # ?rest" n'] obtain t where
      t: "JSON_stringify v = Some t"
        "parse_value (Suc n') (t @ CHR '','' # ?rest) = Some (v, CHR '','' # ?rest)"
      by auto
    have tx: "join (member_texts (map (map_prod id JSON_stringify) (m # ms))) @ CHR ''}'' # rest
        = quote k @ CHR '':'' # t @ CHR '','' # ?rest"
      using t(1) t2 m m2 Cons by simp
    have ih: "parse_members (Suc n') (obj_put k v acc) ?rest =
        Some (Object (foldl (\<lambda>a m. obj_put (fst m) (snd m) a) (obj_put k v acc) ms), rest)"
    proof (rule IH)
      show "ms \<noteq> []" using Cons by simp
      show "list_all (\<lambda>m. scalar (snd m)) ms" using prems by simp
      show "length ms < Suc n'" using n' by simp
    qed
    have fold: "foldl (\<lambda>a m. obj_put (fst m) (snd m) a) acc (m # ms) =
        foldl (\<lambda>a m. obj_put (fst m) (snd m) a) (obj_put k v acc) ms"
      using m by simp
    show ?thesis
      unfolding fold tx n
      using parse_members_comma [OF t(2), of acc k] ih by (simp only:)
  qed
qed

lemma length_join: "list_all (\<lambda>x. c \<le> length x) xs \<Longrightarrow> c * length xs \<le> length (join xs)"
  by (induction xs rule: join.induct) auto

lemma length_quote: "2 \<le> length (quote s)"
  by (simp add: quote_def)

lemma member_texts_length: "list_all (\<lambda>x. 3 \<le> length x) (member_texts ps)"
proof (induction ps rule: member_texts.induct)
  case (3 k t ps)
  have "2 \<le> length (quote k)" by (rule length_quote)
  with 3 show ?case by simp
qed simp_all

lemma member_texts_scalars:
  "list_all (\<lambda>m. scalar (snd m)) ms \<Longrightarrow>
     length (member_texts (map (map_prod id JSON_stringify) ms)) = length ms"
proof (induction ms)
  case Nil
  then show ?case by simp
next
  case (Cons m ms)
  obtain k v where m: "m = (k, v)" by (cases m)
  with Cons.prems have "scalar v" by simp
  from scalar_round_trip [OF this, of "[]" 0] obtain t where "JSON_stringify v = Some t" by auto
  with Cons m show ?case by simp
qed

lemma members_start:
  assumes "ms \<noteq> []" and "list_all (\<lambda>m. scalar (snd m)) ms"
  shows "\<exists>s. join (member_texts (map (map_prod id JSON_stringify) ms)) = dquote # s"
proof -
  obtain k v ms' where ms: "ms = (k, v) # ms'" using assms(1) by (cases ms) auto
  with assms(2) have "scalar v" by simp
  from scalar_round_trip [OF this, of "[]" 0] obtain t where t: "JSON_stringify v = Some t" by auto
  show ?thesis
  proof (cases "member_texts (map (map_prod id JSON_stringify) ms')")
    case Nil
    with ms t show ?thesis by (simp add: quote_def)
  next
    case (Cons y ys)
    with ms t show ?thesis by (simp add: quote_def)
  qed
qed

lemma obj_put_entry:
  "foldl (\<lambda>a m. obj_put (fst m) (snd m) a) []
     [(''id'', a), (''date'', b), (''sessionType'', c), (''plannedMinutes'', d),
      (''actualMinutes'', e), (''tasksCompleted'', f), (''energyAfter'', g), (''notes'', h)]
   = [(''id'', a), (''date'', b), (''sessionType'', c), (''plannedMinutes'', d),
      (''actualMinutes'', e), (''tasksCompleted'', f), (''energyAfter'', g), (''notes'', h)]"
  by (simp add: obj_put_def is_index_def is_digit_def)

lemma entry_round_trip:
  assumes "valid_entry e" and "9 < n"
  shows "\<exists>t. JSON_stringify (entry_obj e) = Some t \<and>
              parse_value n (t @ r) = Some (entry_obj e, r) \<and>
              10 \<le> length t \<and> (\<exists>s. t = CHR ''{'' # s)"
proof -
  let ?ms = "[(''id'', String (entry_id e)), (''date'', String (date e)),
             (''sessionType'', String (sessionType e)),
             (''plannedMinutes'', Number (plannedMinutes e)),
             (''actualMinutes'', Number (actualMinutes e)),
             (''tasksCompleted'', Number (tasksCompleted e)),
             (''energyAfter'', String (energyAfter e)),
             (''notes'', String (entry_notes e))]"
  let ?body = "join (member_texts (map (map_prod id JSON_stringify) ?ms))"
  let ?t = "CHR ''{'' # ?body @ ''}''"
  have obj: "entry_obj e = Object ?ms" by (simp add: entry_obj_def)
  have sc: "list_all (\<lambda>m. scalar (snd m)) ?ms"
    using assms(1) by (simp add: valid_entry_def)
  have str: "JSON_stringify (entry_obj e) = Some ?t"
    unfolding obj by (simp only: JSON_stringify.simps)
  obtain s where s: "?body = dquote # s"
    using members_start [OF _ sc] by blast
  from assms(2) obtain n' where n: "n = Suc n'" and n': "8 < n'" by (cases n) auto
  have "length ?ms < n'" using n' by simp
  from parse_members_scalars [OF _ sc this, of "[]" r]
  have pm: "parse_members n' [] (?body @ CHR ''}'' # r) = Some (Object ?ms, r)"
    by (simp only: obj_put_entry list.distinct not_False_eq_True)
  have "parse_value n (?t @ r) = parse_value (Suc n') (CHR ''{'' # dquote # (s @ CHR ''}'' # r))"
    unfolding n s by simp
  also have "\<dots> = parse_members n' [] (dquote # (s @ CHR ''}'' # r))"
    by (rule parse_value_object)
  also have "\<dots> = parse_members n' [] (?body @ CHR ''}'' # r)"
    unfolding s by simp
  also note pm
  finally have pv: "parse_value n (?t @ r) = Some (entry_obj e, r)"
    unfolding obj .
  have "3 * length (member_texts (map (map_prod id JSON_stringify) ?ms)) \<le> length ?body"
    by (rule length_join [OF member_texts_length])
  moreover have "length (member_texts (map (map_prod id JSON_stringify) ?ms)) = 8"
    using member_texts_scalars [OF sc] by simp
  ultimately have len: "10 \<le> length ?t" by simp
  from str pv len show ?thesis by blast
qed

lemma entry_text_round_trip:
  assumes "valid_entry e" and "9 < n"
  shows "parse_value n (entry_text e @ r) = Some (entry_obj e, r)"
    and "10 \<le> length (entry_text e)"
    and "\<exists>s. entry_text e = CHR ''{'' # s"
proof -
  from entry_round_trip [OF assms, of r] obtain t where
    t: "JSON_stringify (entry_obj e) = Some t" "parse_value n (t @ r) = Some (entry_obj e, r)"
      "10 \<le> length t" "\<exists>s. t = CHR ''{'' # s"
    by blast
  then have "entry_text e = t" by (simp add: entry_text_def element_text_def)
  with t show "parse_value n (entry_text e @ r) = Some (entry_obj e, r)"
    and "10 \<le> length (entry_text e)" and "\<exists>s. entry_text e = CHR ''{'' # s"
    by simp_all
qed

lemma parse_elements_entries:
  "es \<noteq> [] \<Longrightarrow> list_all valid_entry es \<Longrightarrow> length es + 9 < n \<Longrightarrow>
     parse_elements n (join (map entry_text es) @ CHR '']'' # r) = Some (map entry_obj es, r)"
proof (induction es arbitrary: n)
  case Nil
  then show ?case by simp
next
  case (Cons e es)
  note IH = Cons.IH and prems = Cons.prems
  from prems obtain n' where n: "n = Suc n'" and n': "length es + 9 < n'"
    by (cases n) auto
  from prems have ve: "valid_entry e" by simp
  from n' have n9: "9 < n'" by simp
  show ?case
  proof (cases es)
    case Nil
    have "parse_elements (Suc n') (entry_text e @ CHR '']'' # r) = Some ([entry_obj e], r)"
      by (rule parse_elements_close) (rule entry_text_round_trip(1) [OF ve n9])
    with Nil n show ?thesis by simp
  next
    case (Cons e2 es2)
    let ?rest = "join (map entry_text es) @ CHR '']'' # r"
    have tx: "join (map entry_text (e # es)) @ CHR '']'' # r = entry_text e @ CHR '','' # ?rest"
      using Cons by simp
    have ih: "parse_elements n' ?rest = Some (map entry_obj es, r)"
    proof (rule IH)
      show "es \<noteq> []" using Cons by simp
      show "list_all valid_entry es" using prems by simp
      show "length es + 9 < n'" using n' prems Cons by simp
    qed
    have "parse_elements (Suc n') (entry_text e @ CHR '','' # ?rest) =
            (case parse_elements n' ?rest of None \<Rightarrow> None
             | Some (vs, r') \<Rightarrow> Some (entry_obj e # vs, r'))"
      by (rule parse_elements_comma) (rule entry_text_round_trip(1) [OF ve n9])
    with ih have "parse_elements (Suc n') (entry_text e @ CHR '','' # ?rest) =
        Some (entry_obj e # map entry_obj es, r)"
      by simp
    then show ?thesis unfolding tx n by simp
  qed
qed

lemma stringify_entries:
  "JSON_stringify (Array (map entry_obj es)) = Some (CHR ''['' # join (map entry_text es) @ '']'')"
  by (simp add: entry_text_def [abs_def] comp_def)

lemma length_join_entries:
  "list_all valid_entry es \<Longrightarrow> 10 * length es \<le> length (join (map entry_text es))"
proof -
  assume v: "list_all valid_entry es"
  have "list_all (\<lambda>x. 10 \<le> length x) (map entry_text es)"
    using v entry_text_round_trip(2) [of _ 10] by (auto simp: list_all_iff)
  from length_join [OF this] show ?thesis by simp
qed

lemma parse_stringify_entries:
  assumes "list_all valid_entry es"
  shows "JSON_parse (CHR ''['' # join (map entry_text es) @ '']'') = Inr (Array (map entry_obj es))"
proof (cases es)
  case Nil
  have "parse_value (Suc (length ''[]'')) (''[]'' @ []) = Some (Array [], [])"
    by (rule parse_value_empty_array)
  with Nil show ?thesis by (simp add: JSON_parse_def skip_ws_def)
next
  case (Cons e es')
  let ?body = "join (map entry_text es)"
  let ?t = "CHR ''['' # ?body @ '']''"
  from assms Cons have ve: "valid_entry e" by simp
  from entry_text_round_trip(3) [OF ve, of 10] obtain s where s: "entry_text e = CHR ''{'' # s"
    by auto
  have "\<exists>s'. ?body = CHR ''{'' # s'"
  proof (cases es')
    case Nil
    with Cons s show ?thesis by simp
  next
    case (Cons e2 es2)
    with \<open>es = e # es'\<close> s show ?thesis by simp
  qed
  then obtain s' where s': "?body = CHR ''{'' # s'" by blast
  have len: "length es + 9 < length ?t"
    using length_join_entries [OF assms] Cons by simp
  have pe: "parse_elements (length ?t) (?body @ CHR '']'' # []) = Some (map entry_obj es, [])"
    by (rule parse_elements_entries) (use assms Cons len in simp_all)
  have "parse_value (Suc (length ?t)) ?t =
          parse_value (Suc (length ?t)) (CHR ''['' # CHR ''{'' # (s' @ '']''))"
    unfolding s' by simp
  also have "\<dots> = (case parse_elements (length ?t) (CHR ''{'' # (s' @ '']'')) of
                      None \<Rightarrow> None | Some (vs, r) \<Rightarrow> Some (Array vs, r))"
    by (rule parse_value_array)
  also have "CHR ''{'' # (s' @ '']'') = ?body @ CHR '']'' # []"
    unfolding s' by simp
  finally have "parse_value (Suc (length ?t)) ?t = Some (Array (map entry_obj es), [])"
    using pe by simp
  then show ?thesis by (simp add: JSON_parse_def skip_ws_def)
qed

subsection \<open>Loading and saving\<close>

lemma loadSessions_local_text:
  assumes "list_all valid_entry es"
    and "localStorage w STORAGE_KEY = JSON_stringify (Array (map entry_obj es))"
  shows "loadSessions_local w = Inr (map entry_obj es)"
  using assms parse_stringify_entries [OF assms(1)]
  by (simp add: loadSessions_local_def getItem_def stringify_entries del: JSON_stringify.simps)

lemma saveSessions_local_storage:
  "setItem_fault w = None \<Longrightarrow>
     localStorage (snd (saveSessions_local (map entry_obj es) w)) =
       (localStorage w)(STORAGE_KEY \<mapsto> CHR ''['' # join (map entry_text es) @ '']'')"
  by (simp add: saveSessions_local_def setItem_def stringify_entries del: JSON_stringify.simps)

lemma saveSessions_local_fault:
  "setItem_fault w = Some e \<Longrightarrow> localStorage (snd (saveSessions_local xs w)) = localStorage w"
  by (simp add: saveSessions_local_def setItem_def console_error_def)

lemma entry_obj_inj: "entry_obj a = entry_obj b \<Longrightarrow> a = b"
  by (cases a; cases b) (simp add: entry_obj_def)

lemma map_entry_obj_inj: "map entry_obj es = map entry_obj es' \<Longrightarrow> es = es'"
  using entry_obj_inj by (simp add: inj_on_def list.inj_map_strong)

text \<open>
  C7, as the code has it. For every sequence of valid entries, when the write is
  accepted, \<^verbatim>\<open>loadSessions\<close> after \<^verbatim>\<open>saveSessions\<close> returns the sequence that was
  saved (as objects, and an entry is determined by its object). When the storage
  holds the text \<^verbatim>\<open>saveSessions\<close> writes for a sequence of valid entries,
  \<^verbatim>\<open>loadSessions\<close> returns that sequence and \<^verbatim>\<open>saveSessions(loadSessions())\<close> leaves
  the storage as it is.
\<close>

theorem local_round_trip:
  assumes "list_all valid_entry es"
  shows "(setItem_fault w = None \<longrightarrow>
            loadSessions_local (snd (saveSessions_local (map entry_obj es) w)) =
              Inr (map entry_obj es))
         \<and> (localStorage w STORAGE_KEY = JSON_stringify (Array (map entry_obj es)) \<longrightarrow>
              loadSessions_local w = Inr (map entry_obj es) \<and>
              localStorage (snd (save_loaded w)) = localStorage w)
         \<and> (map entry_obj es = map entry_obj es' \<longrightarrow> es = es')"
proof (intro conjI impI)
  assume ok: "setItem_fault w = None"
  let ?w' = "snd (saveSessions_local (map entry_obj es) w)"
  have "localStorage ?w' STORAGE_KEY = JSON_stringify (Array (map entry_obj es))"
    using saveSessions_local_storage [OF ok, of es]
    by (simp add: stringify_entries del: JSON_stringify.simps)
  from loadSessions_local_text [OF assms this]
  show "loadSessions_local ?w' = Inr (map entry_obj es)" .
next
  assume st: "localStorage w STORAGE_KEY = JSON_stringify (Array (map entry_obj es))"
  from loadSessions_local_text [OF assms st]
  show ld: "loadSessions_local w = Inr (map entry_obj es)" .
  show "localStorage (snd (save_loaded w)) = localStorage w"
  proof (cases "setItem_fault w")
    case None
    have "localStorage (snd (save_loaded w)) =
            (localStorage w)(STORAGE_KEY \<mapsto> CHR ''['' # join (map entry_text es) @ '']'')"
      using saveSessions_local_storage [OF None, of es] ld by (simp add: save_loaded_def)
    also have "\<dots> = localStorage w"
      using st by (simp add: stringify_entries map_upd_triv del: JSON_stringify.simps)
    finally show ?thesis .
  next
    case (Some e)
    from saveSessions_local_fault [OF this] ld show ?thesis by (simp add: save_loaded_def)
  qed
next
  assume "map entry_obj es = map entry_obj es'"
  then show "es = es'" by (rule map_entry_obj_inj)
qed

text \<open>
  Two valid entries, the second with a negative number, \<^verbatim>\<open>null\<close> and notes that need
  every kind of escape.
\<close>

theorem local_round_trip_witness:
  "list_all valid_entry [example_entry, example_entry2]
   \<and> setItem_fault example_env = None
   \<and> loadSessions_local (snd (saveSessions_local (map entry_obj [example_entry, example_entry2])
                                 example_env)) =
       Inr (map entry_obj [example_entry, example_entry2])
   \<and> localStorage (snd (saveSessions_local (map entry_obj [example_entry, example_entry2])
                            example_env)) STORAGE_KEY =
       JSON_stringify (Array (map entry_obj [example_entry, example_entry2]))
   \<and> localStorage
        (snd (save_loaded (snd (saveSessions_local (map entry_obj [example_entry, example_entry2])
                                  example_env)))) =
       localStorage (snd (saveSessions_local (map entry_obj [example_entry, example_entry2])
                            example_env))"
proof -
  let ?es = "[example_entry, example_entry2]"
  let ?w' = "snd (saveSessions_local (map entry_obj ?es) example_env)"
  have v: "list_all valid_entry ?es"
    by (simp add: valid_entry_def example_entry_def example_entry2_def)
  have ok: "setItem_fault example_env = None" by (simp add: example_env_def)
  have st: "localStorage ?w' STORAGE_KEY = JSON_stringify (Array (map entry_obj ?es))"
    using saveSessions_local_storage [OF ok, of ?es]
    by (simp only: stringify_entries fun_upd_same)
  from v ok st local_round_trip [OF v, where w = example_env]
    local_round_trip [OF v, where w = ?w']
  show ?thesis by blast
qed

text \<open>
  C7 as stated would have \<^verbatim>\<open>saveSessions(loadSessions())\<close> leave every storage
  content unchanged. With nothing stored under the key, \<^verbatim>\<open>loadSessions\<close> returns the
  empty sequence and \<^verbatim>\<open>saveSessions\<close> then stores the text \<^verbatim>\<open>[]\<close>.
\<close>

theorem save_loaded_counterexample:
  "localStorage example_env STORAGE_KEY = None
   \<and> localStorage (snd (save_loaded example_env)) STORAGE_KEY = Some ''[]''"
  by code_simp

text \<open>
  The text stored for the second example entry.
\<close>

lemma stored_text_example:
  "localStorage (snd (saveSessions_local [entry_obj example_entry2] example_env)) STORAGE_KEY =
     Some (''[{'' @ [dquote] @ ''id'' @ [dquote] @ '':'' @ [dquote] @ ''b7'' @ [dquote] @ '','' @
           [dquote] @ ''date'' @ [dquote] @ '':'' @ [dquote] @ ''2024-01-02'' @ [dquote] @ '','' @
           [dquote] @ ''sessionType'' @ [dquote] @ '':'' @ [dquote] @ ''Green'' @ [dquote] @ '','' @
           [dquote] @ ''plannedMinutes'' @ [dquote] @ '':90,'' @
           [dquote] @ ''actualMinutes'' @ [dquote] @ '':-5,'' @
           [dquote] @ ''tasksCompleted'' @ [dquote] @ '':null,'' @
           [dquote] @ ''energyAfter'' @ [dquote] @ '':'' @ [dquote] @ ''Same'' @ [dquote] @ '','' @
           [dquote] @ ''notes'' @ [dquote] @ '':'' @ [dquote] @ ''a'' @ [backslash, dquote] @
           [backslash, backslash] @ [backslash] @ ''n'' @ [backslash] @ ''u0001z'' @ [dquote] @
           ''}]'')"
  by code_simp

text \<open>
  An entry whose \<^verbatim>\<open>plannedMinutes\<close> is \<^verbatim>\<open>NaN\<close> passes the checks of \<^verbatim>\<open>handleSave\<close>
  and is not restored: \<^verbatim>\<open>NaN\<close> is written as \<^verbatim>\<open>null\<close>. The round trip needs the number
  fields to be numbers.
\<close>

lemma nan_minutes_not_restored:
  "validate (example_entry\<lparr>plannedMinutes := NaN\<rparr>) = None
   \<and> loadSessions_local
        (snd (saveSessions_local [entry_obj (example_entry\<lparr>plannedMinutes := NaN\<rparr>)] example_env)) =
       Inr [entry_obj (example_entry\<lparr>plannedMinutes := Null\<rparr>)]"
  by code_simp

text \<open>
  C8. \<^verbatim>\<open>loadSessions\<close> of the local variant returns the empty sequence when the
  stored payload is absent, is the empty string, is not parseable as JSON, or parses
  to a value that is not an array; and whatever the payload is, it returns and does
  not raise.
\<close>

theorem loadSessions_local_never_raises:
  "(getItem STORAGE_KEY w = None \<longrightarrow> loadSessions_local w = Inr [])
   \<and> (getItem STORAGE_KEY w = Some [] \<longrightarrow> loadSessions_local w = Inr [])
   \<and> (getItem STORAGE_KEY w = Some raw \<and> JSON_parse raw = Inl e \<longrightarrow> loadSessions_local w = Inr [])
   \<and> (getItem STORAGE_KEY w = Some raw \<and> JSON_parse raw = Inr v \<and> \<not> isArray v \<longrightarrow>
        loadSessions_local w = Inr [])
   \<and> (\<exists>xs. loadSessions_local w = Inr xs)"
  by (auto simp: loadSessions_local_def split: option.splits sum.splits)

text \<open>
  Nothing stored, the empty string, a text that is not JSON, and a JSON object.
\<close>

theorem loadSessions_local_never_raises_witness:
  "getItem STORAGE_KEY example_env = None
   \<and> loadSessions_local example_env = Inr []
   \<and> getItem STORAGE_KEY (example_env\<lparr>localStorage := (\<lambda>k. Some [])\<rparr>) = Some []
   \<and> loadSessions_local (example_env\<lparr>localStorage := (\<lambda>k. Some [])\<rparr>) = Inr []
   \<and> getItem STORAGE_KEY (example_env\<lparr>localStorage := (\<lambda>k. Some ''[1,'')\<rparr>) = Some ''[1,''
   \<and> JSON_parse ''[1,'' = Inl (Error ''SyntaxError'')
   \<and> loadSessions_local (example_env\<lparr>localStorage := (\<lambda>k. Some ''[1,'')\<rparr>) = Inr []
   \<and> getItem STORAGE_KEY (example_env\<lparr>localStorage := (\<lambda>k. Some ''{}'')\<rparr>) = Some ''{}''
   \<and> JSON_parse ''{}'' = Inr (Object [])
   \<and> \<not> isArray (Object [])
   \<and> loadSessions_local (example_env\<lparr>localStorage := (\<lambda>k. Some ''{}'')\<rparr>) = Inr []"
proof -
  have g: "getItem STORAGE_KEY example_env = None"
    "getItem STORAGE_KEY (example_env\<lparr>localStorage := (\<lambda>k. Some [])\<rparr>) = Some []"
    "getItem STORAGE_KEY (example_env\<lparr>localStorage := (\<lambda>k. Some ''[1,'')\<rparr>) = Some ''[1,''"
    "getItem STORAGE_KEY (example_env\<lparr>localStorage := (\<lambda>k. Some ''{}'')\<rparr>) = Some ''{}''"
    by (simp_all add: getItem_def example_env_def)
  have p: "JSON_parse ''[1,'' = Inl (Error ''SyntaxError'')" "JSON_parse ''{}'' = Inr (Object [])"
    by code_simp+
  have a: "\<not> isArray (Object [])" by simp
  from g p a
    loadSessions_local_never_raises [where w = example_env]
    loadSessions_local_never_raises [where w = "example_env\<lparr>localStorage := (\<lambda>k. Some [])\<rparr>"]
    loadSessions_local_never_raises [where w = "example_env\<lparr>localStorage := (\<lambda>k. Some ''[1,'')\<rparr>"
      and raw = "''[1,''" and e = "Error ''SyntaxError''"]
    loadSessions_local_never_raises [where w = "example_env\<lparr>localStorage := (\<lambda>k. Some ''{}'')\<rparr>"
      and raw = "''{}''" and v = "Object []"]
  show ?thesis by blast
qed

end
